theory Spec2Isabelle
  imports Main "HOL-Library.Product_Lexorder"
begin

unbundle bit_operations_syntax

section \<open>Data model of nnet3/nnet-analyze.cc\<close>

text \<open>
  All \<open>int32\<close> values of the source are modelled as \<open>int\<close>; positions in a
  \<open>std::vector\<close> are \<open>nat\<close>, obtained from an \<open>int\<close> only after the range test
  the source makes (or, where the source makes none, after a test whose failure
  is the value \<open>UndefinedBehaviour\<close>).
\<close>

datatype error =
    AssertFailed            \<comment> \<open>a failed \<open>KALDI_ASSERT\<close>\<close>
  | KaldiErr string         \<comment> \<open>\<open>KALDI_ERR << msg\<close>\<close>
  | UndefinedBehaviour      \<comment> \<open>a vector read or written out of its bounds, an end iterator dereferenced\<close>

record MatrixInfo =
  m_num_rows :: int
  m_num_cols :: int

record SubMatrixInfo =
  matrix_index :: int
  row_offset :: int
  num_rows :: int
  col_offset :: int
  num_cols :: int

datatype CommandType =
    kAllocMatrixUndefined | kAllocMatrixZeroed | kDeallocMatrix
  | kPropagate | kStoreStats | kBackprop
  | kMatrixCopy | kMatrixAdd | kCopyRows | kAddRows
  | kCopyRowsMulti | kCopyToRowsMulti | kAddRowsMulti | kAddToRowsMulti
  | kAddRowRanges | kNoOperation | kNoOperationMarker
  | kOtherCommandType       \<comment> \<open>a value of the enum outside its enumerators (the \<open>default:\<close> branch)\<close>

record Command =
  command_type :: CommandType
  arg1 :: int
  arg2 :: int
  arg3 :: int
  arg4 :: int
  arg5 :: int
  arg6 :: int

record NnetComputation =
  matrices :: "MatrixInfo list"
  submatrices :: "SubMatrixInfo list"
  commands :: "Command list"
  indexes :: "int list list"
  indexes_multi :: "(int \<times> int) list list"
  indexes_ranges :: "(int \<times> int) list list"
  num_precomputed_indexes :: nat   \<comment> \<open>\<open>component_precomputed_indexes.size()\<close>\<close>
  input_output_info :: "(int \<times> int \<times> int) list"
    \<comment> \<open>the \<open>unordered_map\<close> node \<open>\<mapsto>\<close> (value matrix, derivative matrix), in iteration order\<close>

datatype AccessType = kReadAccess | kWriteAccess | kReadWriteAccess

record Access =
  command_index :: int
  access_type :: AccessType

record MatrixAccesses =
  allocate_command :: int
  deallocate_command :: int
  accesses :: "Access list"
  is_input :: bool
  is_output :: bool

record CommandAttributes =
  variables_read :: "int list"
  variables_written :: "int list"
  submatrices_read :: "int list"
  submatrices_written :: "int list"
  matrices_read :: "int list"
  matrices_written :: "int list"
  has_side_effects :: bool

record ComputationVariables =
  split_points :: "int list list"
  matrix_to_variable_index :: "int list"
  num_variables :: int
  variable_ranges :: "(int \<times> int) list"
  full_column_range :: "bool list"
  submatrix_to_matrix :: "int list"
  submatrix_is_whole_matrix :: "bool list"
  variable_to_matrix :: "int list"

section \<open>Control flow: errors and counted loops\<close>

definition and_then :: "error + 'a \<Rightarrow> ('a \<Rightarrow> error + 'b) \<Rightarrow> error + 'b" where
  "and_then m k = (case m of Inl e \<Rightarrow> Inl e | Inr x \<Rightarrow> k x)"

text \<open>\<open>for (i in is) body\<close> on a state, leaving at the first error.\<close>

fun for_loop :: "'i list \<Rightarrow> ('i \<Rightarrow> 's \<Rightarrow> error + 's) \<Rightarrow> 's \<Rightarrow> error + 's" where
  "for_loop [] body s = Inr s"
| "for_loop (i # rest) body s =
     (case body i s of Inl e \<Rightarrow> Inl e | Inr s' \<Rightarrow> for_loop rest body s')"

text \<open>A run of statements \<open>if (b) KALDI_ERR << msg;\<close>: the first \<open>b\<close> that holds throws.\<close>

fun first_err :: "(bool \<times> string) list \<Rightarrow> error + unit" where
  "first_err [] = Inr ()"
| "first_err ((b, msg) # rest) = (if b then Inl (KaldiErr msg) else first_err rest)"

text \<open>\<open>std::vector::resize(n, d)\<close>.\<close>

definition resize :: "nat \<Rightarrow> 'a \<Rightarrow> 'a list \<Rightarrow> 'a list" where
  "resize n d xs = take n xs @ replicate (n - length xs) d"

text \<open>\<open>static_cast<size_t>(i) < n\<close> for an \<open>int32\<close> \<open>i\<close>: a negative \<open>i\<close> becomes huge.\<close>

definition in_range :: "int \<Rightarrow> nat \<Rightarrow> bool" where
  "in_range i n = (0 \<le> i \<and> i < int n)"

text \<open>\<open>SortAndUniq\<close> (util/stl-utils.h): \<open>std::sort\<close>, then \<open>std::unique\<close> and \<open>erase\<close>.\<close>

definition SortAndUniq :: "'a::linorder list \<Rightarrow> 'a list" where
  "SortAndUniq xs = remdups_adj (sort xs)"

text \<open>
  \<open>std::lower_bound(first, first + len, val)\<close> on the vector \<open>xs\<close>, as the halving
  search of the standard library; the result is a position in \<open>first .. first + len\<close>.
\<close>

function lower_bound :: "int list \<Rightarrow> nat \<Rightarrow> nat \<Rightarrow> int \<Rightarrow> nat" where
  "lower_bound xs first len val =
     (if len = 0 then first
      else let half = len div 2; middle = first + half
           in if xs ! middle < val
              then lower_bound xs (middle + 1) (len - half - 1) val
              else lower_bound xs first half val)"
  by pat_completeness auto
termination
  by (relation "measure (\<lambda>(xs, first, len, val). len)") auto

declare lower_bound.simps [simp del]

text \<open>
  \<open>a + b\<close> on two \<open>int32\<close>, as the machine computes it: the sum modulo \<open>2^32\<close>, read
  as a signed number.
\<close>

definition int32_add :: "int \<Rightarrow> int \<Rightarrow> int" where
  "int32_add a b = (a + b + 2147483648) mod 4294967296 - 2147483648"

section \<open>Region partitioner\<close>

definition split_push :: "NnetComputation \<Rightarrow> nat \<Rightarrow> ComputationVariables \<Rightarrow> error + ComputationVariables" where
  "split_push computation submatrix_index vars =
     (let s = submatrices computation ! submatrix_index
      in if \<not> in_range (matrix_index s) (length (split_points vars)) then Inl UndefinedBehaviour
         else let m = nat (matrix_index s);
                  sp = split_points vars
              in Inr (vars\<lparr>split_points :=
                        sp[m := sp ! m @ [col_offset s, int32_add (col_offset s) (num_cols s)]]\<rparr>))"

definition split_sort :: "nat \<Rightarrow> ComputationVariables \<Rightarrow> error + ComputationVariables" where
  "split_sort m vars =
     (let sp = split_points vars; q = SortAndUniq (sp ! m)
      in if 2 \<le> length q then Inr (vars\<lparr>split_points := sp[m := q]\<rparr>)
         else Inl AssertFailed)"

definition split_count :: "nat \<Rightarrow> ComputationVariables \<Rightarrow> error + ComputationVariables" where
  "split_count m vars =
     (let num_vars = int (length (split_points vars ! m)) - 1;
          mv = matrix_to_variable_index vars
      in if 1 \<le> num_vars
         then Inr (vars\<lparr>matrix_to_variable_index := mv[m + 1 := mv ! m + num_vars]\<rparr>)
         else Inl AssertFailed)"

definition ComputeSplitPoints :: "NnetComputation \<Rightarrow> ComputationVariables \<Rightarrow> error + ComputationVariables" where
  "ComputeSplitPoints computation vars =
     (let num_matrices = length (matrices computation);
          num_submatrices = length (submatrices computation);
          vars1 = vars\<lparr>split_points := resize num_matrices [] (split_points vars)\<rparr>
      in if num_submatrices = 0 then Inl UndefinedBehaviour
         else if num_rows (submatrices computation ! 0) \<noteq> 0 then Inl AssertFailed
         else
           and_then (for_loop [1..<num_submatrices] (split_push computation) vars1) (\<lambda>vars2.
           and_then (for_loop [1..<num_matrices] split_sort vars2) (\<lambda>vars3.
           if num_matrices = 0 then Inl UndefinedBehaviour
           else
             let mv = (resize (num_matrices + 1) 0 (matrix_to_variable_index vars3))[0 := 0, 1 := 0]
             in and_then (for_loop [1..<num_matrices] split_count
                            (vars3\<lparr>matrix_to_variable_index := mv\<rparr>)) (\<lambda>vars4.
                Inr (vars4\<lparr>num_variables := last (matrix_to_variable_index vars4)\<rparr>)))))"

definition range_body :: "NnetComputation \<Rightarrow> nat \<Rightarrow> ComputationVariables \<Rightarrow> error + ComputationVariables" where
  "range_body computation submatrix_index vars =
     (let s = submatrices computation ! submatrix_index;
          start_dim = col_offset s;
          end_dim = int32_add start_dim (num_cols s)
      in if \<not> in_range (matrix_index s) (length (split_points vars)) then Inl UndefinedBehaviour
         else
           let m = nat (matrix_index s);
               split = split_points vars ! m;
               start_split_point_index = lower_bound split 0 (length split) start_dim
           in if start_split_point_index = length split then Inl UndefinedBehaviour
              else if split ! start_split_point_index \<noteq> start_dim then Inl AssertFailed
              else
                let end_split_point_index =
                      lower_bound split start_split_point_index
                        (length split - start_split_point_index) end_dim
                in if end_split_point_index = length split then Inl UndefinedBehaviour
                   else if split ! end_split_point_index \<noteq> end_dim then Inl AssertFailed
                   else if \<not> m < length (matrix_to_variable_index vars) then Inl UndefinedBehaviour
                   else
                     let matrix_offset = matrix_to_variable_index vars ! m;
                         start_variable_index = matrix_offset + int start_split_point_index;
                         end_variable_index = matrix_offset + int end_split_point_index
                     in if \<not> start_variable_index < end_variable_index then Inl AssertFailed
                        else if row_offset s = 0 \<and> \<not> m < length (matrices computation)
                        then Inl UndefinedBehaviour
                        else Inr (vars
                          \<lparr>variable_ranges := (variable_ranges vars)
                             [submatrix_index := (start_variable_index, end_variable_index)],
                           full_column_range := (full_column_range vars)
                             [submatrix_index := (row_offset s = 0 \<and>
                                num_rows s = m_num_rows (matrices computation ! m))]\<rparr>))"

definition ComputeVariableRanges :: "NnetComputation \<Rightarrow> ComputationVariables \<Rightarrow> error + ComputationVariables" where
  "ComputeVariableRanges computation vars =
     (let num_submatrices = length (submatrices computation)
      in if num_submatrices = 0 then Inl UndefinedBehaviour
         else for_loop [1..<num_submatrices] (range_body computation)
                (vars\<lparr>variable_ranges := (resize num_submatrices (0, 0) (variable_ranges vars))[0 := (0, 0)],
                      full_column_range := resize num_submatrices False (full_column_range vars)\<rparr>))"

definition v2m_body :: "int \<Rightarrow> int \<Rightarrow> ComputationVariables \<Rightarrow> error + ComputationVariables" where
  "v2m_body m variable_index vars =
     (let vm = variable_to_matrix vars
      in if \<not> in_range variable_index (length vm) then Inl UndefinedBehaviour
         else if vm ! nat variable_index = - 1
              then Inr (vars\<lparr>variable_to_matrix := vm[nat variable_index := m]\<rparr>)
         else if vm ! nat variable_index = m then Inr vars
         else Inl AssertFailed)"

definition v2m_submatrix :: "NnetComputation \<Rightarrow> nat \<Rightarrow> ComputationVariables \<Rightarrow> error + ComputationVariables" where
  "v2m_submatrix computation submatrix_index vars =
     (if \<not> submatrix_index < length (submatrices computation) then Inl UndefinedBehaviour
      else let m = matrix_index (submatrices computation ! submatrix_index);
               variable_start = fst (variable_ranges vars ! submatrix_index);
               variable_end = snd (variable_ranges vars ! submatrix_index)
           in for_loop [variable_start..variable_end - 1] (v2m_body m) vars)"

definition ComputeVariableToMatrix :: "NnetComputation \<Rightarrow> ComputationVariables \<Rightarrow> error + ComputationVariables" where
  "ComputeVariableToMatrix computation vars =
     (if num_variables vars < 0 then Inl UndefinedBehaviour  \<comment> \<open>\<open>resize\<close> to a negative size\<close>
      else
        and_then (for_loop [1..<length (variable_ranges vars)] (v2m_submatrix computation)
                    (vars\<lparr>variable_to_matrix := replicate (nat (num_variables vars)) (- 1)\<rparr>)) (\<lambda>vars1.
        if count_list (variable_to_matrix vars1) (- 1) = 0 then Inr vars1 else Inl AssertFailed))"

text \<open>
  Modelled from the spec: \<open>NnetComputation::IsWholeMatrix\<close> is declared outside this
  file. The spec: a view is whole-buffer if its row and column ranges equal the
  buffer's full extent.
\<close>

definition IsWholeMatrix :: "NnetComputation \<Rightarrow> nat \<Rightarrow> bool" where
  "IsWholeMatrix computation submatrix_index =
     (let s = submatrices computation ! submatrix_index;
          mat = matrices computation ! nat (matrix_index s)
      in row_offset s = 0 \<and> col_offset s = 0 \<and>
         num_rows s = m_num_rows mat \<and> num_cols s = m_num_cols mat)"

definition info_body :: "NnetComputation \<Rightarrow> nat \<Rightarrow> ComputationVariables \<Rightarrow> error + ComputationVariables" where
  "info_body computation s vars =
     Inr (vars\<lparr>submatrix_to_matrix :=
                 (submatrix_to_matrix vars)[s := matrix_index (submatrices computation ! s)],
               submatrix_is_whole_matrix :=
                 (submatrix_is_whole_matrix vars)[s := IsWholeMatrix computation s]\<rparr>)"

definition ComputeSubmatrixInfo :: "NnetComputation \<Rightarrow> ComputationVariables \<Rightarrow> error + ComputationVariables" where
  "ComputeSubmatrixInfo computation vars =
     (let num_submatrices = length (submatrices computation)
      in for_loop [1..<num_submatrices] (info_body computation)
           (vars\<lparr>submatrix_to_matrix := resize num_submatrices 0 (submatrix_to_matrix vars),
                 submatrix_is_whole_matrix :=
                   resize num_submatrices False (submatrix_is_whole_matrix vars)\<rparr>))"

text \<open>\<open>ComputationVariables::Init\<close>.\<close>

definition Init :: "NnetComputation \<Rightarrow> ComputationVariables \<Rightarrow> error + ComputationVariables" where
  "Init computation vars =
     (if split_points vars \<noteq> [] then Inl AssertFailed
      else and_then (ComputeSplitPoints computation vars) (\<lambda>vars1.
           and_then (ComputeVariableRanges computation vars1) (\<lambda>vars2.
           and_then (ComputeVariableToMatrix computation vars2) (\<lambda>vars3.
           ComputeSubmatrixInfo computation vars3))))"

text \<open>A default-constructed \<open>ComputationVariables\<close>.\<close>

definition empty_variables :: ComputationVariables where
  "empty_variables =
     \<lparr>split_points = [], matrix_to_variable_index = [], num_variables = 0,
      variable_ranges = [], full_column_range = [], submatrix_to_matrix = [],
      submatrix_is_whole_matrix = [], variable_to_matrix = []\<rparr>"

definition GetMatrixForVariable :: "ComputationVariables \<Rightarrow> int \<Rightarrow> error + int" where
  "GetMatrixForVariable vars variable =
     (if in_range variable (length (variable_to_matrix vars))
      then Inr (variable_to_matrix vars ! nat variable)
      else Inl AssertFailed)"

definition AppendVariablesForSubmatrix :: "ComputationVariables \<Rightarrow> int \<Rightarrow> int list \<Rightarrow> error + int list" where
  "AppendVariablesForSubmatrix vars submatrix_index variable_indexes =
     (if \<not> in_range submatrix_index (length (variable_ranges vars)) then Inl AssertFailed
      else let start = fst (variable_ranges vars ! nat submatrix_index);
               end = snd (variable_ranges vars ! nat submatrix_index)
           in Inr (variable_indexes @ [start..end - 1]))"

definition AppendVariablesForMatrix :: "ComputationVariables \<Rightarrow> int \<Rightarrow> int list \<Rightarrow> error + int list" where
  "AppendVariablesForMatrix vars m variable_indexes =
     (if \<not> in_range (m + 1) (length (matrix_to_variable_index vars)) then Inl AssertFailed
      else if m < 0 then Inl UndefinedBehaviour
      else let start = matrix_to_variable_index vars ! nat m;
               end = matrix_to_variable_index vars ! nat (m + 1)
           in Inr (variable_indexes @ [start..end - 1]))"

section \<open>Access classifier\<close>

definition RecordAccessForSubmatrix ::
  "ComputationVariables \<Rightarrow> int \<Rightarrow> AccessType \<Rightarrow> CommandAttributes \<Rightarrow> error + CommandAttributes" where
  "RecordAccessForSubmatrix vars submatrix_index access ca =
     (if submatrix_index = 0 then Inr ca
      else if \<not> in_range submatrix_index (length (submatrix_to_matrix vars)) then Inl AssertFailed
      else if \<not> in_range submatrix_index (length (submatrix_is_whole_matrix vars))
           then Inl UndefinedBehaviour
      else
        let m = submatrix_to_matrix vars ! nat submatrix_index;
            is_whole_matrix = submatrix_is_whole_matrix vars ! nat submatrix_index
        in case access of
             kReadAccess \<Rightarrow>
               and_then (AppendVariablesForSubmatrix vars submatrix_index (variables_read ca)) (\<lambda>vr.
               Inr (ca\<lparr>variables_read := vr,
                        matrices_read := matrices_read ca @ [m],
                        submatrices_read := submatrices_read ca @ [submatrix_index]\<rparr>))
           | kWriteAccess \<Rightarrow>
               and_then (AppendVariablesForSubmatrix vars submatrix_index (variables_written ca)) (\<lambda>vw.
               let ca1 = ca\<lparr>variables_written := vw,
                             submatrices_written := submatrices_written ca @ [submatrix_index],
                             matrices_written := matrices_written ca @ [m]\<rparr>
               in if \<not> in_range submatrix_index (length (full_column_range vars))
                  then Inl UndefinedBehaviour
                  else
                    and_then (if \<not> full_column_range vars ! nat submatrix_index
                              then and_then (AppendVariablesForSubmatrix vars submatrix_index
                                               (variables_read ca1)) (\<lambda>vr.
                                   Inr (ca1\<lparr>variables_read := vr\<rparr>))
                              else Inr ca1) (\<lambda>ca2.
                    if \<not> is_whole_matrix
                    then Inr (ca2\<lparr>matrices_read := matrices_read ca2 @ [m]\<rparr>)
                    else Inr ca2))
           | kReadWriteAccess \<Rightarrow>
               and_then (AppendVariablesForSubmatrix vars submatrix_index (variables_written ca)) (\<lambda>vw.
               and_then (AppendVariablesForSubmatrix vars submatrix_index (variables_read ca)) (\<lambda>vr.
               Inr (ca\<lparr>variables_written := vw,
                        variables_read := vr,
                        submatrices_written := submatrices_written ca @ [submatrix_index],
                        submatrices_read := submatrices_read ca @ [submatrix_index],
                        matrices_written := matrices_written ca @ [m],
                        matrices_read := matrices_read ca @ [m]\<rparr>))))"

text \<open>
  \<open>IndexesMultiToSubmatrixIndexes\<close>: the loop carries \<open>cur_submatrix_index\<close> and the
  output vector.
\<close>

fun indexes_multi_scan :: "(int \<times> int) list \<Rightarrow> int \<Rightarrow> int list \<Rightarrow> int list" where
  "indexes_multi_scan [] cur_submatrix_index out = out"
| "indexes_multi_scan (p # rest) cur_submatrix_index out =
     (let submatrix_index = fst p
      in if submatrix_index \<noteq> - 1 \<and> submatrix_index \<noteq> cur_submatrix_index
         then indexes_multi_scan rest submatrix_index (out @ [submatrix_index])
         else indexes_multi_scan rest cur_submatrix_index out)"

definition IndexesMultiToSubmatrixIndexes :: "(int \<times> int) list \<Rightarrow> int list" where
  "IndexesMultiToSubmatrixIndexes indexes_multi_arg =
     SortAndUniq (indexes_multi_scan indexes_multi_arg (- 1) [])"

text \<open>
  The network and its components are declared outside this file: they are
  parameters, as are the values of the component property flags.
\<close>

record Component =
  Properties :: int
  InputDim :: int
  OutputDim :: int

record Nnet =
  NumComponents :: int
  GetComponent :: "int \<Rightarrow> Component"
  NumNodes :: int
  IsComponentNode :: "int \<Rightarrow> bool"
  GetComponentForNode :: "int \<Rightarrow> Component"
  IsInputNode :: "int \<Rightarrow> bool"
  IsOutputNode :: "int \<Rightarrow> bool"

record ComponentProperties =
  kSimpleComponent :: int
  kUpdatableComponent :: int
  kPropagateInPlace :: int
  kPropagateAdds :: int
  kBackpropAdds :: int
  kBackpropNeedsInput :: int
  kBackpropNeedsOutput :: int
  kBackpropInPlace :: int
  kStoresStats :: int

text \<open>\<open>properties & flag\<close> used as a condition.\<close>

definition has_flag :: "int \<Rightarrow> int \<Rightarrow> bool" where
  "has_flag properties flag = (properties AND flag \<noteq> 0)"

definition empty_attributes :: CommandAttributes where
  "empty_attributes =
     \<lparr>variables_read = [], variables_written = [], submatrices_read = [],
      submatrices_written = [], matrices_read = [], matrices_written = [],
      has_side_effects = False\<rparr>"

text \<open>The \<open>switch\<close> of \<open>ComputeCommandAttributes\<close>, on a fresh \<open>CommandAttributes\<close>.\<close>

definition attributes_switch ::
  "Nnet \<Rightarrow> ComponentProperties \<Rightarrow> NnetComputation \<Rightarrow> ComputationVariables \<Rightarrow> Command
     \<Rightarrow> error + CommandAttributes" where
  "attributes_switch nnet fl computation vars c =
     (let attr = empty_attributes;
          rec = RecordAccessForSubmatrix vars
      in case command_type c of
        kAllocMatrixZeroed \<Rightarrow>
          and_then (AppendVariablesForMatrix vars (arg1 c) (variables_written attr)) (\<lambda>vw.
          Inr (attr\<lparr>variables_written := vw, matrices_written := matrices_written attr @ [arg1 c]\<rparr>))
      | kAllocMatrixUndefined \<Rightarrow> Inr attr
      | kDeallocMatrix \<Rightarrow> Inr attr
      | kPropagate \<Rightarrow>
          and_then (rec (arg3 c) kReadAccess attr)
            (if has_flag (Properties (GetComponent nnet (arg1 c))) (kPropagateAdds fl)
             then rec (arg4 c) kReadWriteAccess
             else rec (arg4 c) kWriteAccess)
      | kStoreStats \<Rightarrow> rec (arg2 c) kReadAccess attr
      | kBackprop \<Rightarrow>
          and_then (rec (arg3 c) kReadAccess attr) (\<lambda>a1.
          and_then (rec (arg4 c) kReadAccess a1) (\<lambda>a2.
          and_then (rec (arg5 c) kReadAccess a2) (\<lambda>a3.
          and_then (if has_flag (Properties (GetComponentForNode nnet (arg1 c))) (kBackpropAdds fl)
                    then rec (arg6 c) kReadWriteAccess a3
                    else rec (arg6 c) kWriteAccess a3) (\<lambda>a4.
          if has_flag (Properties (GetComponentForNode nnet (arg1 c))) (kUpdatableComponent fl)
          then Inr (a4\<lparr>has_side_effects := True\<rparr>)
          else Inr a4))))
      | kMatrixCopy \<Rightarrow>
          and_then (rec (arg1 c) kWriteAccess attr) (rec (arg2 c) kReadAccess)
      | kMatrixAdd \<Rightarrow>
          and_then (rec (arg1 c) kReadWriteAccess attr) (rec (arg2 c) kReadAccess)
      | kAddRows \<Rightarrow>
          and_then (rec (arg1 c) kReadWriteAccess attr) (rec (arg2 c) kReadAccess)
      | kCopyRows \<Rightarrow>
          if \<not> in_range (arg3 c) (length (indexes computation)) then Inl UndefinedBehaviour
          else
            let indexes_arg = indexes computation ! nat (arg3 c)
            in and_then (if 0 < count_list indexes_arg (- 1)
                         then rec (arg1 c) kReadWriteAccess attr
                         else rec (arg1 c) kWriteAccess attr)
                 (rec (arg2 c) kReadAccess)
      | kAddRowsMulti \<Rightarrow>
          and_then (rec (arg1 c) kReadWriteAccess attr) (\<lambda>a1.
          if \<not> in_range (arg2 c) (length (indexes_multi computation)) then Inl UndefinedBehaviour
          else for_loop (IndexesMultiToSubmatrixIndexes (indexes_multi computation ! nat (arg2 c)))
                 (\<lambda>s. rec s kReadAccess) a1)
      | kCopyRowsMulti \<Rightarrow>
          if \<not> in_range (arg2 c) (length (indexes_multi computation)) then Inl UndefinedBehaviour
          else
            and_then (rec (arg1 c) kWriteAccess attr)
              (for_loop (IndexesMultiToSubmatrixIndexes (indexes_multi computation ! nat (arg2 c)))
                 (\<lambda>s. rec s kReadAccess))
      | kAddToRowsMulti \<Rightarrow>
          and_then (rec (arg1 c) kReadAccess attr) (\<lambda>a1.
          if \<not> in_range (arg2 c) (length (indexes_multi computation)) then Inl UndefinedBehaviour
          else for_loop (IndexesMultiToSubmatrixIndexes (indexes_multi computation ! nat (arg2 c)))
                 (\<lambda>s. rec s kReadWriteAccess) a1)
      | kCopyToRowsMulti \<Rightarrow>
          and_then (rec (arg1 c) kReadAccess attr) (\<lambda>a1.
          if \<not> in_range (arg2 c) (length (indexes_multi computation)) then Inl UndefinedBehaviour
          else for_loop (IndexesMultiToSubmatrixIndexes (indexes_multi computation ! nat (arg2 c)))
                 (\<lambda>s. rec s kReadWriteAccess) a1)
      | kAddRowRanges \<Rightarrow>
          and_then (rec (arg1 c) kReadWriteAccess attr) (rec (arg2 c) kReadAccess)
      | kNoOperation \<Rightarrow> Inr attr
      | kNoOperationMarker \<Rightarrow> Inr attr
      | kOtherCommandType \<Rightarrow> Inl (KaldiErr ''Unknown command type.''))"

text \<open>The six \<open>SortAndUniq\<close> calls that end each round of the loop.\<close>

definition sort_attributes :: "CommandAttributes \<Rightarrow> CommandAttributes" where
  "sort_attributes attr =
     attr\<lparr>variables_read := SortAndUniq (variables_read attr),
          variables_written := SortAndUniq (variables_written attr),
          submatrices_read := SortAndUniq (submatrices_read attr),
          submatrices_written := SortAndUniq (submatrices_written attr),
          matrices_read := SortAndUniq (matrices_read attr),
          matrices_written := SortAndUniq (matrices_written attr)\<rparr>"

definition attributes_of_command ::
  "Nnet \<Rightarrow> ComponentProperties \<Rightarrow> NnetComputation \<Rightarrow> ComputationVariables \<Rightarrow> Command
     \<Rightarrow> error + CommandAttributes" where
  "attributes_of_command nnet fl computation vars c =
     and_then (attributes_switch nnet fl computation vars c) (\<lambda>attr.
     Inr (sort_attributes attr))"

fun ComputeCommandAttributes_loop ::
  "Nnet \<Rightarrow> ComponentProperties \<Rightarrow> NnetComputation \<Rightarrow> ComputationVariables \<Rightarrow> Command list
     \<Rightarrow> error + CommandAttributes list" where
  "ComputeCommandAttributes_loop nnet fl computation vars [] = Inr []"
| "ComputeCommandAttributes_loop nnet fl computation vars (c # rest) =
     and_then (attributes_of_command nnet fl computation vars c) (\<lambda>attr.
     and_then (ComputeCommandAttributes_loop nnet fl computation vars rest) (\<lambda>attrs.
     Inr (attr # attrs)))"

definition ComputeCommandAttributes ::
  "Nnet \<Rightarrow> ComponentProperties \<Rightarrow> NnetComputation \<Rightarrow> ComputationVariables
     \<Rightarrow> error + CommandAttributes list" where
  "ComputeCommandAttributes nnet fl computation vars =
     ComputeCommandAttributes_loop nnet fl computation vars (commands computation)"

section \<open>Access-history builder\<close>

text \<open>\<open>IsSortedAndUniq\<close> (util/stl-utils.h): strictly increasing.\<close>

definition IsSortedAndUniq :: "int list \<Rightarrow> bool" where
  "IsSortedAndUniq xs = sorted_wrt (<) xs"

text \<open>
  The kind of one touch, from the two \<open>std::binary_search\<close> calls on the sorted
  read and write sets (membership, on a sorted vector).
\<close>

definition access_kind :: "int list \<Rightarrow> int list \<Rightarrow> int \<Rightarrow> AccessType" where
  "access_kind reads writes x =
     (let is_read = (x \<in> set reads);
          is_written = (if \<not> is_read then True else x \<in> set writes)
      in if is_read \<and> is_written then kReadWriteAccess
         else if is_read then kReadAccess
         else kWriteAccess)"

definition variable_access_body ::
  "int \<Rightarrow> CommandAttributes \<Rightarrow> int \<Rightarrow> Access list list \<Rightarrow> error + Access list list" where
  "variable_access_body c attr variable_index va =
     (if \<not> in_range variable_index (length va) then Inl UndefinedBehaviour
      else Inr (va[nat variable_index := va ! nat variable_index @
             [\<lparr>command_index = c,
               access_type = access_kind (variables_read attr) (variables_written attr) variable_index\<rparr>]]))"

definition variable_access_command ::
  "CommandAttributes list \<Rightarrow> nat \<Rightarrow> Access list list \<Rightarrow> error + Access list list" where
  "variable_access_command attrs c va =
     (let attr = attrs ! c
      in if \<not> IsSortedAndUniq (variables_read attr) then Inl AssertFailed
         else if \<not> IsSortedAndUniq (variables_written attr) then Inl AssertFailed
         else for_loop (SortAndUniq (variables_read attr @ variables_written attr))
                (variable_access_body (int c) attr) va)"

definition ComputeVariableAccesses ::
  "ComputationVariables \<Rightarrow> CommandAttributes list \<Rightarrow> error + Access list list" where
  "ComputeVariableAccesses vars attrs =
     (if num_variables vars < 0 then Inl UndefinedBehaviour  \<comment> \<open>\<open>resize\<close> to a negative size\<close>
      else for_loop [0..<length attrs] (variable_access_command attrs)
             (replicate (nat (num_variables vars)) []))"

text \<open>
  Decimal text of a number, as \<open>operator<<\<close> prints it into a message.
\<close>

definition digit_char :: "nat \<Rightarrow> char" where
  "digit_char d = char_of (d + 48)"

fun decimal :: "nat \<Rightarrow> string" where
  "decimal n = (if 10 \<le> n then decimal (n div 10) @ [digit_char (n mod 10)] else [digit_char n])"

declare decimal.simps [simp del]

definition string_of_int :: "int \<Rightarrow> string" where
  "string_of_int i = (if i < 0 then CHR ''-'' # decimal (nat (- i)) else decimal (nat i))"

text \<open>A default-constructed \<open>MatrixAccesses\<close>: no command yet (\<open>-1\<close>), no flag set.\<close>

definition empty_matrix_accesses :: MatrixAccesses where
  "empty_matrix_accesses =
     \<lparr>allocate_command = - 1, deallocate_command = - 1, accesses = [],
      is_input = False, is_output = False\<rparr>"

definition matrix_access_body ::
  "int \<Rightarrow> CommandAttributes \<Rightarrow> int \<Rightarrow> MatrixAccesses list \<Rightarrow> error + MatrixAccesses list" where
  "matrix_access_body c attr m ma =
     (if \<not> in_range m (length ma) then Inl UndefinedBehaviour
      else Inr (ma[nat m := (ma ! nat m)\<lparr>accesses := accesses (ma ! nat m) @
             [\<lparr>command_index = c,
               access_type = access_kind (matrices_read attr) (matrices_written attr) m\<rparr>]\<rparr>]))"

definition matrix_alloc_body :: "int \<Rightarrow> Command \<Rightarrow> MatrixAccesses list \<Rightarrow> error + MatrixAccesses list" where
  "matrix_alloc_body c command ma =
     (let m = arg1 command
      in if command_type command = kAllocMatrixZeroed \<or> command_type command = kAllocMatrixUndefined
         then if \<not> in_range m (length ma) then Inl UndefinedBehaviour
              else if allocate_command (ma ! nat m) \<noteq> - 1
                   then Inl (KaldiErr (''Matrix '' @ string_of_int m @ '' initialized twice.''))
              else Inr (ma[nat m := (ma ! nat m)\<lparr>allocate_command := c\<rparr>])
         else if command_type command = kDeallocMatrix
         then if \<not> in_range m (length ma) then Inl UndefinedBehaviour
              else if deallocate_command (ma ! nat m) \<noteq> - 1
                   then Inl (KaldiErr (''Matrix '' @ string_of_int m @ '' destroyed twice.''))
              else Inr (ma[nat m := (ma ! nat m)\<lparr>deallocate_command := c\<rparr>])
         else Inr ma)"

definition matrix_access_command ::
  "NnetComputation \<Rightarrow> CommandAttributes list \<Rightarrow> nat \<Rightarrow> MatrixAccesses list \<Rightarrow> error + MatrixAccesses list" where
  "matrix_access_command computation attrs c ma =
     (let attr = attrs ! c
      in if \<not> IsSortedAndUniq (matrices_read attr) then Inl AssertFailed
         else if \<not> IsSortedAndUniq (matrices_written attr) then Inl AssertFailed
         else
           and_then (for_loop (SortAndUniq (matrices_read attr @ matrices_written attr))
                       (matrix_access_body (int c) attr) ma) (\<lambda>ma1.
           if \<not> c < length (commands computation) then Inl UndefinedBehaviour
           else matrix_alloc_body (int c) (commands computation ! c) ma1))"

definition set_flag_input :: "int \<Rightarrow> MatrixAccesses list \<Rightarrow> error + MatrixAccesses list" where
  "set_flag_input m ma =
     (if \<not> in_range m (length ma) then Inl UndefinedBehaviour
      else if is_input (ma ! nat m) then Inl AssertFailed
      else Inr (ma[nat m := (ma ! nat m)\<lparr>is_input := True\<rparr>]))"

definition set_flag_output :: "int \<Rightarrow> MatrixAccesses list \<Rightarrow> error + MatrixAccesses list" where
  "set_flag_output m ma =
     (if \<not> in_range m (length ma) then Inl UndefinedBehaviour
      else if is_output (ma ! nat m) then Inl AssertFailed
      else Inr (ma[nat m := (ma ! nat m)\<lparr>is_output := True\<rparr>]))"

definition input_output_body ::
  "Nnet \<Rightarrow> nat \<Rightarrow> int \<times> int \<times> int \<Rightarrow> MatrixAccesses list \<Rightarrow> error + MatrixAccesses list" where
  "input_output_body nnet num_matrices entry ma =
     (let node_index = fst entry;
          value_matrix_index = fst (snd entry);
          deriv_matrix_index = snd (snd entry)
      in if \<not> (0 < value_matrix_index \<and> value_matrix_index < int num_matrices) then Inl AssertFailed
         else if IsInputNode nnet node_index
         then and_then (set_flag_input value_matrix_index ma) (\<lambda>ma1.
              if deriv_matrix_index \<noteq> 0 then set_flag_output deriv_matrix_index ma1 else Inr ma1)
         else if \<not> IsOutputNode nnet node_index then Inl AssertFailed
         else and_then (set_flag_output value_matrix_index ma) (\<lambda>ma1.
              if deriv_matrix_index \<noteq> 0 then set_flag_input deriv_matrix_index ma1 else Inr ma1))"

definition ComputeMatrixAccesses ::
  "Nnet \<Rightarrow> NnetComputation \<Rightarrow> ComputationVariables \<Rightarrow> CommandAttributes list
     \<Rightarrow> error + MatrixAccesses list" where
  "ComputeMatrixAccesses nnet computation vars attrs =
     (let num_matrices = length (matrices computation)
      in and_then (for_loop [0..<length attrs] (matrix_access_command computation attrs)
                     (replicate num_matrices empty_matrix_accesses)) (\<lambda>ma.
         for_loop (input_output_info computation) (input_output_body nnet num_matrices) ma))"

record Analyzer =
  variables :: ComputationVariables
  command_attributes :: "CommandAttributes list"
  variable_accesses :: "Access list list"
  matrix_accesses :: "MatrixAccesses list"

definition empty_analyzer :: Analyzer where
  "empty_analyzer =
     \<lparr>variables = empty_variables, command_attributes = [], variable_accesses = [],
      matrix_accesses = []\<rparr>"

text \<open>\<open>Analyzer::Init\<close>.\<close>

definition Analyzer_Init ::
  "Nnet \<Rightarrow> ComponentProperties \<Rightarrow> NnetComputation \<Rightarrow> Analyzer \<Rightarrow> error + Analyzer" where
  "Analyzer_Init nnet fl computation a =
     and_then (Init computation (variables a)) (\<lambda>vars.
     and_then (ComputeCommandAttributes nnet fl computation vars) (\<lambda>attrs.
     and_then (ComputeVariableAccesses vars attrs) (\<lambda>va.
     and_then (ComputeMatrixAccesses nnet computation vars attrs) (\<lambda>ma.
     Inr \<lparr>variables = vars, command_attributes = attrs, variable_accesses = va,
          matrix_accesses = ma\<rparr>))))"

section \<open>Verifier\<close>

record CheckComputationOptions =
  check_rewrite :: bool

text \<open>
  The process: the static flag \<open>computation_checker_warned_unused_input\<close> and the
  \<open>KALDI_WARN\<close> lines written so far.
\<close>

record Process =
  computation_checker_warned_unused_input :: bool
  warnings :: "string list"

subsection \<open>CheckComputationRewrite\<close>

text \<open>The position of the first pure read, or \<open>-1\<close>.\<close>

fun first_pure_read_from :: "Access list \<Rightarrow> int \<Rightarrow> int" where
  "first_pure_read_from [] access = - 1"
| "first_pure_read_from (a # rest) access =
     (if access_type a = kReadAccess then access else first_pure_read_from rest (access + 1))"

definition rewrite_variable :: "Analyzer \<Rightarrow> nat \<Rightarrow> unit \<Rightarrow> error + unit" where
  "rewrite_variable a v u =
     (let acc = variable_accesses a ! v
      in and_then (GetMatrixForVariable (variables a) (int v)) (\<lambda>m.
         if acc = [] \<and> \<not> in_range m (length (matrix_accesses a)) then Inl UndefinedBehaviour
         else if acc = [] \<and> \<not> is_input (matrix_accesses a ! nat m)
         then Inl (KaldiErr (''Variable '' @ string_of_int (int v) @ '' (part of matrix m'' @
                 string_of_int m @ '') is never used.''))
         else
           let first_pure_read = first_pure_read_from acc 0
           in if first_pure_read \<noteq> - 1
              then for_loop (drop (nat (first_pure_read + 1)) acc)
                     (\<lambda>x u. if access_type x \<noteq> kReadAccess
                            then Inl (KaldiErr (''Variable '' @ string_of_int (int v) @
                                   '' (part of matrix m'' @ string_of_int m @
                                   '') is modified after being read '' @
                                   ''(this is not expected before optimization)''))
                            else Inr ()) ()
              else Inr ()))"

definition CheckComputationRewrite :: "Analyzer \<Rightarrow> error + unit" where
  "CheckComputationRewrite a =
     for_loop [0..<length (variable_accesses a)] (rewrite_variable a) ()"

subsection \<open>CheckComputationUndefined\<close>

definition undefined_variable :: "Analyzer \<Rightarrow> nat \<Rightarrow> unit \<Rightarrow> error + unit" where
  "undefined_variable a v u =
     (let acc = variable_accesses a ! v
      in and_then (GetMatrixForVariable (variables a) (int v)) (\<lambda>m.
         if \<not> in_range m (length (matrix_accesses a)) then Inl UndefinedBehaviour
         else if \<not> is_input (matrix_accesses a ! nat m)
         then first_err
                [(acc = [], ''Variable '' @ string_of_int (int v) @ '' (part of matrix m'' @
                    string_of_int m @ '') is never used.''),
                 (access_type (acc ! 0) \<noteq> kWriteAccess,
                    ''Variable '' @ string_of_int (int v) @ '' (part of matrix m'' @
                    string_of_int m @ '') is read before it is written to'')]
         else Inr ()))"

definition CheckComputationUndefined :: "Analyzer \<Rightarrow> error + unit" where
  "CheckComputationUndefined a =
     for_loop [0..<length (variable_accesses a)] (undefined_variable a) ()"

subsection \<open>CheckComputationMatrixAccesses\<close>

text \<open>One round of the loop: the two \<open>if\<close>/\<open>else\<close> blocks, on the process.\<close>

definition check_matrix_allocation :: "nat \<Rightarrow> MatrixAccesses \<Rightarrow> error + unit" where
  "check_matrix_allocation m acc =
     (if is_input acc
      then first_err [(allocate_command acc \<noteq> - 1, ''Input matrix is initialized.'')]
      else first_err
        [(allocate_command acc = - 1, ''Matrix is not initialized.''),
         (accesses acc = [], ''Matrix m'' @ string_of_int (int m) @ '' is never accessed.''),
         (command_index (hd (accesses acc)) < allocate_command acc,
            ''Matrix m'' @ string_of_int (int m) @ '' is accessed before it is initialized'')])"

definition check_matrix_deallocation :: "nat \<Rightarrow> MatrixAccesses \<Rightarrow> Process \<Rightarrow> Process \<times> (error + unit)" where
  "check_matrix_deallocation m acc p =
     (if is_output acc
      then (p, first_err [(deallocate_command acc \<noteq> - 1, ''Output matrix is destroyed.'')])
      else if deallocate_command acc = - 1 then (p, Inl (KaldiErr ''Matrix is not destroyed.''))
      else if accesses acc = []
      then if is_input acc
           then if \<not> computation_checker_warned_unused_input p
                then (p\<lparr>warnings := warnings p @
                         [''Matrix m'' @ string_of_int (int m) @ '' is never accessed. '' @
                          ''Allowing because it is an input (un-needed input or '' @
                          ''derivative?)  Will warn only once.''],
                        computation_checker_warned_unused_input := True\<rparr>, Inr ())
                else (p, Inr ())
           else (p, Inl (KaldiErr (''Matrix m'' @ string_of_int (int m) @ '' is never accessed.'')))
      else (p, first_err
             [(deallocate_command acc \<le> command_index (last (accesses acc)),
                 ''Matrix m'' @ string_of_int (int m) @ '' is accessed after it is destroyed'')]))"

definition check_matrix :: "nat \<Rightarrow> MatrixAccesses \<Rightarrow> Process \<Rightarrow> Process \<times> (error + unit)" where
  "check_matrix m acc p =
     (case check_matrix_allocation m acc of
        Inl e \<Rightarrow> (p, Inl e)
      | Inr u \<Rightarrow> check_matrix_deallocation m acc p)"

fun check_matrices :: "nat list \<Rightarrow> MatrixAccesses list \<Rightarrow> Process \<Rightarrow> Process \<times> (error + unit)" where
  "check_matrices [] ma p = (p, Inr ())"
| "check_matrices (m # rest) ma p =
     (case check_matrix m (ma ! m) p of
        (p', Inl e) \<Rightarrow> (p', Inl e)
      | (p', Inr u) \<Rightarrow> check_matrices rest ma p')"

definition CheckComputationMatrixAccesses :: "Analyzer \<Rightarrow> Process \<Rightarrow> Process \<times> (error + unit)" where
  "CheckComputationMatrixAccesses a p =
     check_matrices [1..<length (matrix_accesses a)] (matrix_accesses a) p"

subsection \<open>CheckComputationOrder\<close>

text \<open>The first loop: \<open>(num_markers, marker_location)\<close>.\<close>

definition count_markers :: "Command list \<Rightarrow> int \<times> int" where
  "count_markers cmds =
     fold (\<lambda>c (num_markers, marker_location).
             if command_type (cmds ! c) = kNoOperationMarker
             then (num_markers + 1, int c)
             else (num_markers, marker_location))
       [0..<length cmds] (0, 0)"

definition order_body :: "Command list \<Rightarrow> int \<Rightarrow> nat \<Rightarrow> unit \<Rightarrow> error + unit" where
  "order_body cmds marker_location c u =
     (let ty = command_type (cmds ! c)
      in first_err
           [(int c \<noteq> marker_location \<and> ty = kNoOperationMarker,
               ''Found kNoOpMarker in unexpected place''),
            (int c < marker_location \<and> ty = kBackprop, ''Backprop occurs before kNoOpMarker''),
            (int c > marker_location \<and> ty = kPropagate, ''Propagate occurs after kNoOpMarker''),
            (int c > marker_location \<and> ty = kStoreStats, ''StoreStats occurs after kNoOpMarker'')])"

definition CheckComputationOrder :: "NnetComputation \<Rightarrow> error + unit" where
  "CheckComputationOrder computation =
     (let cmds = commands computation;
          num_markers = fst (count_markers cmds);
          marker_location = snd (count_markers cmds)
      in if num_markers \<noteq> 1 then Inl (KaldiErr ''Expected exactly one kNoOperationMarker marker.'')
         else for_loop [0..<length cmds] (order_body cmds marker_location) ())"

subsection \<open>CheckComputationIndexes\<close>

text \<open>The first loop of the \<open>*-multi\<close> case, one pair.\<close>

definition check_multi_pair :: "NnetComputation \<Rightarrow> Command \<Rightarrow> int \<times> int \<Rightarrow> unit \<Rightarrow> error + unit" where
  "check_multi_pair computation c p u =
     (let subs = submatrices computation;
          num_submatrices = int (length subs);
          num_cols_arg1 = num_cols (subs ! nat (arg1 c));
          submatrix_index = fst p;
          row_index = snd p
      in if submatrix_index = - 1
         then first_err [(row_index \<noteq> - 1, ''Expected -1 row index if submatrix index is -1'')]
         else first_err
           [(submatrix_index < 1 \<or> submatrix_index \<ge> num_submatrices,
               ''Submatrix index out of range in indexes_multi''),
            (row_index < 0 \<or> row_index \<ge> num_rows (subs ! nat submatrix_index),
               ''Row index out of range in indexes_multi''),
            (submatrix_index = arg1 c, ''Copying from self in *-multi command.''),
            (num_cols (subs ! nat submatrix_index) \<noteq> num_cols_arg1,
               ''Mismatching dimension in *-multi command'')])"

text \<open>
  The duplicate scan over the sorted copy of the pairs: each element against its
  successor.
\<close>

fun find_duplicate :: "(int \<times> int) list \<Rightarrow> error + unit" where
  "find_duplicate (x # y # rest) =
     (if x = y \<and> fst x \<noteq> - 1
      then Inl (KaldiErr (''Duplicate element '' @ string_of_int (fst x) @ '','' @
              string_of_int (snd x) @
              '' found in indexes for {add,copy}-to-rows-multi command.''))
      else find_duplicate (y # rest))"
| "find_duplicate rest = Inr ()"

definition check_multi :: "NnetComputation \<Rightarrow> Command \<Rightarrow> error + unit" where
  "check_multi computation c =
     (let subs = submatrices computation;
          num_submatrices = int (length subs)
      in and_then (first_err
           [(arg1 c < 1 \<or> arg1 c \<ge> num_submatrices \<or>
             \<not> in_range (arg2 c) (length (indexes_multi computation)),
               ''Index out of range in *-multi command'')]) (\<lambda>u.
         let pairs = indexes_multi computation ! nat (arg2 c);
             num_rows_arg1 = num_rows (subs ! nat (arg1 c))
         in and_then (first_err
              [(int (length pairs) \<noteq> num_rows_arg1,
                  ''Indexes dimension mismatch in *-multi command'')]) (\<lambda>u.
            and_then (for_loop pairs (check_multi_pair computation c) ()) (\<lambda>u.
            if command_type c = kAddToRowsMulti \<or> command_type c = kCopyToRowsMulti
            then find_duplicate (sort pairs)
            else Inr ()))))"

definition check_rows :: "NnetComputation \<Rightarrow> Command \<Rightarrow> error + unit" where
  "check_rows computation c =
     (let subs = submatrices computation;
          num_submatrices = int (length subs)
      in and_then (first_err
           [(arg1 c < 1 \<or> arg1 c \<ge> num_submatrices \<or>
             arg2 c < 1 \<or> arg2 c \<ge> num_submatrices \<or>
             \<not> in_range (arg3 c) (length (indexes computation)),
               ''Index out of range in add-rows/copy-rows command.'')]) (\<lambda>u.
         let indexes_arg = indexes computation ! nat (arg3 c)
         in and_then (first_err
              [(int (length indexes_arg) \<noteq> num_rows (subs ! nat (arg1 c)),
                  ''Indexes size mismatch in add-rows/copy-rows''),
               (num_cols (subs ! nat (arg1 c)) \<noteq> num_cols (subs ! nat (arg2 c)),
                  ''Dimension mismatch in add-rows/copy-rows'')]) (\<lambda>u.
            if indexes_arg = [] then Inl UndefinedBehaviour  \<comment> \<open>\<open>*std::max_element\<close> of an empty range\<close>
            else first_err
              [(Max (set indexes_arg) \<ge> num_rows (subs ! nat (arg2 c)),
                  ''Row-index out of range in add-rows/copy-rows''),
               (arg1 c = arg2 c, ''Copying to self in add-rows/copy-rows command.'')])))"

definition check_row_ranges :: "NnetComputation \<Rightarrow> Command \<Rightarrow> error + unit" where
  "check_row_ranges computation c =
     (let subs = submatrices computation;
          num_submatrices = int (length subs)
      in and_then (first_err
           [(arg1 c < 1 \<or> arg1 c \<ge> num_submatrices \<or>
             arg2 c < 1 \<or> arg2 c \<ge> num_submatrices \<or>
             \<not> in_range (arg3 c) (length (indexes_ranges computation)),
               ''Index out of range in add-row-ranges command'')]) (\<lambda>u.
         if \<not> in_range (arg2 c) (length (indexes_ranges computation)) then Inl UndefinedBehaviour
         else
           let pairs = indexes_ranges computation ! nat (arg2 c);
               src_num_rows = num_rows (subs ! nat (arg2 c))
           in and_then (first_err
                [(num_rows (subs ! nat (arg1 c)) \<noteq> int (length pairs),
                    ''Num-rows mismatch in add-row-ranges command''),
                 (num_cols (subs ! nat (arg1 c)) \<noteq> num_cols (subs ! nat (arg2 c)),
                    ''Dimension mismatch in add-row-ranges command'')]) (\<lambda>u.
              for_loop pairs
                (\<lambda>p u. first_err
                   [(snd p < fst p \<or> fst p < 0 \<or> snd p > src_num_rows,
                       ''Row range '' @ string_of_int (fst p) @ '','' @ string_of_int (snd p) @
                       '' out of range in add-row-ranges command.'')]) ())))"

definition check_propagate :: "Nnet \<Rightarrow> ComponentProperties \<Rightarrow> NnetComputation \<Rightarrow> Command \<Rightarrow> error + unit" where
  "check_propagate nnet fl computation c =
     (let subs = submatrices computation;
          num_submatrices = int (length subs);
          component = GetComponent nnet (arg1 c);
          properties = Properties component
      in first_err
        [(arg1 c < 0 \<or> arg1 c \<ge> NumComponents nnet, ''Component index out of range''),
         (arg2 c < 0 \<or> arg2 c > int (num_precomputed_indexes computation),
            ''Precomputed-indexes index out of range''),
         (arg2 c \<noteq> 0 \<and> has_flag properties (kSimpleComponent fl),
            ''Precomputed-indexes index nonzero for simple component''),
         (arg3 c < 0 \<or> arg3 c \<ge> num_submatrices \<or>
          (arg3 c = 0 \<and> \<not> has_flag properties (kSimpleComponent fl)) \<or>
          arg4 c < 1 \<or> arg4 c \<ge> num_submatrices,
            ''Sub-matrix indexes out of range.''),
         (num_cols (subs ! nat (arg3 c)) \<noteq> InputDim component, ''Input-dim mismatch.''),
         (num_cols (subs ! nat (arg4 c)) \<noteq> OutputDim component, ''Input-dim mismatch.''),
         (has_flag properties (kSimpleComponent fl) \<and>
          num_rows (subs ! nat (arg3 c)) \<noteq> num_rows (subs ! nat (arg4 c)),
            ''Num-rows mismatch for simple component.''),
         (\<not> has_flag properties (kPropagateInPlace fl) \<and> arg3 c = arg4 c,
            ''In-place propagation not supported for this component'')])"

definition check_store_stats :: "Nnet \<Rightarrow> ComponentProperties \<Rightarrow> NnetComputation \<Rightarrow> Command \<Rightarrow> error + unit" where
  "check_store_stats nnet fl computation c =
     (let subs = submatrices computation;
          num_submatrices = int (length subs);
          component = GetComponent nnet (arg1 c);
          properties = Properties component
      in first_err
        [(arg1 c < 0 \<or> arg1 c \<ge> NumComponents nnet, ''Component index out of range''),
         (\<not> has_flag properties (kStoresStats fl),
            ''StoreStats called on component that does not do it.''),
         (arg2 c < 1 \<or> arg2 c \<ge> num_submatrices, ''Invalid sub-matrix index in StoreStats''),
         (num_cols (subs ! nat (arg2 c)) \<noteq> OutputDim component,
            ''Dimension mismatch in StoreStats'')])"

text \<open>
  The conditions of the \<open>kBackprop\<close> case, in the order of the source; the seventh is
  \<open>c.arg6 == 0 && !(properties && kUpdatableComponent)\<close>, with the logical \<open>&&\<close> on
  the two integers.
\<close>

definition check_backprop :: "Nnet \<Rightarrow> ComponentProperties \<Rightarrow> NnetComputation \<Rightarrow> Command \<Rightarrow> error + unit" where
  "check_backprop nnet fl computation c =
     (let subs = submatrices computation;
          num_submatrices = int (length subs);
          component = GetComponentForNode nnet (arg1 c);
          properties = Properties component
      in first_err
        [(arg1 c < 0 \<or> arg1 c \<ge> NumNodes nnet \<or> \<not> IsComponentNode nnet (arg1 c),
            ''Node index in backprop invalid or out of range''),
         (arg2 c < 0 \<or> arg2 c > int (num_precomputed_indexes computation),
            ''Precomputed-indexes index out of range''),
         (arg2 c \<noteq> 0 \<and> has_flag properties (kSimpleComponent fl),
            ''Precomputed-indexes index nonzero for simple component''),
         (arg3 c < 0 \<or> arg3 c \<ge> num_submatrices \<or>
          arg4 c < 0 \<or> arg4 c \<ge> num_submatrices \<or>
          arg5 c < 1 \<or> arg5 c \<ge> num_submatrices \<or>
          arg6 c < 0 \<or> arg6 c \<ge> num_submatrices,
            ''Submatrix index out of range for backprop.''),
         (has_flag properties (kBackpropNeedsInput fl) \<and> arg3 c = 0,
            ''Backprop input needed but not supplied.''),
         (has_flag properties (kBackpropNeedsOutput fl) \<and> arg4 c = 0,
            ''Backprop output needed but not supplied.''),
         (arg6 c = 0 \<and> \<not> (properties \<noteq> 0 \<and> kUpdatableComponent fl \<noteq> 0),
            ''Backprop is done but has no effect.''),
         (arg5 c = arg6 c \<and> \<not> has_flag properties (kBackpropInPlace fl),
            ''In-place backprop used where not supported.''),
         (arg3 c \<noteq> 0 \<and> num_cols (subs ! nat (arg3 c)) \<noteq> InputDim component,
            ''Input-dim mismatch in backprop.''),
         (arg4 c \<noteq> 0 \<and> num_cols (subs ! nat (arg4 c)) \<noteq> OutputDim component,
            ''Output-dim mismatch in backprop.''),
         (arg5 c \<noteq> 0 \<and> num_cols (subs ! nat (arg5 c)) \<noteq> OutputDim component,
            ''Output-dim mismatch in backprop.''),
         (arg6 c \<noteq> 0 \<and> num_cols (subs ! nat (arg6 c)) \<noteq> InputDim component,
            ''Input-dim mismatch in backprop.''),
         (arg3 c \<noteq> 0 \<and> arg6 c \<noteq> 0 \<and>
          num_rows (subs ! nat (arg3 c)) \<noteq> num_rows (subs ! nat (arg6 c)),
            ''Num-rows mismatch in backprop input''),
         (arg4 c \<noteq> 0 \<and>
          num_rows (subs ! nat (arg4 c)) \<noteq> num_rows (subs ! nat (arg5 c)),
            ''Num-rows mismatch in backprop output''),
         (has_flag properties (kSimpleComponent fl) \<and> arg6 c \<noteq> 0 \<and>
          num_rows (subs ! nat (arg5 c)) \<noteq> num_rows (subs ! nat (arg6 c)),
            ''Num-rows mismatch in backprop input vs output.'')])"

definition check_copy_add :: "NnetComputation \<Rightarrow> Command \<Rightarrow> error + unit" where
  "check_copy_add computation c =
     (let subs = submatrices computation;
          num_submatrices = int (length subs)
      in first_err
        [(arg1 c < 1 \<or> arg1 c \<ge> num_submatrices \<or> arg2 c < 1 \<or> arg2 c \<ge> num_submatrices,
            ''Submatrix indexes out of range in matrix copy/add''),
         (num_rows (subs ! nat (arg1 c)) \<noteq> num_rows (subs ! nat (arg2 c)) \<or>
          num_cols (subs ! nat (arg1 c)) \<noteq> num_cols (subs ! nat (arg2 c)),
            ''Submatrix indexes out of range in matrix copy/add''),
         (arg1 c = arg2 c, ''Adding/copying to self'')])"

text \<open>The \<open>switch\<close> of \<open>CheckComputationIndexes\<close>, for one command.\<close>

definition check_command :: "Nnet \<Rightarrow> ComponentProperties \<Rightarrow> NnetComputation \<Rightarrow> Command \<Rightarrow> error + unit" where
  "check_command nnet fl computation c =
     (case command_type c of
        kAllocMatrixZeroed \<Rightarrow>
          first_err [(arg1 c < 1 \<or> arg1 c \<ge> int (length (matrices computation)),
                        ''matrix index out of range.'')]
      | kAllocMatrixUndefined \<Rightarrow>
          first_err [(arg1 c < 1 \<or> arg1 c \<ge> int (length (matrices computation)),
                        ''matrix index out of range.'')]
      | kDeallocMatrix \<Rightarrow>
          first_err [(arg1 c < 1 \<or> arg1 c \<ge> int (length (matrices computation)),
                        ''matrix index out of range.'')]
      | kPropagate \<Rightarrow> check_propagate nnet fl computation c
      | kStoreStats \<Rightarrow> check_store_stats nnet fl computation c
      | kBackprop \<Rightarrow> check_backprop nnet fl computation c
      | kMatrixCopy \<Rightarrow> check_copy_add computation c
      | kMatrixAdd \<Rightarrow> check_copy_add computation c
      | kAddRows \<Rightarrow> check_rows computation c
      | kCopyRows \<Rightarrow> check_rows computation c
      | kAddRowsMulti \<Rightarrow> check_multi computation c
      | kCopyRowsMulti \<Rightarrow> check_multi computation c
      | kAddToRowsMulti \<Rightarrow> check_multi computation c
      | kCopyToRowsMulti \<Rightarrow> check_multi computation c
      | kAddRowRanges \<Rightarrow> check_row_ranges computation c
      | kNoOperation \<Rightarrow> Inr ()
      | kNoOperationMarker \<Rightarrow> Inr ()
      | kOtherCommandType \<Rightarrow> Inl (KaldiErr ''Unknown command type.''))"

definition CheckComputationIndexes :: "Nnet \<Rightarrow> ComponentProperties \<Rightarrow> NnetComputation \<Rightarrow> error + unit" where
  "CheckComputationIndexes nnet fl computation =
     for_loop (commands computation) (\<lambda>c u. check_command nnet fl computation c) ()"

subsection \<open>Check\<close>

text \<open>
  \<open>ComputationChecker::Check\<close>, on the checker's own fresh analyzer \<open>a_\<close>. An error
  leaves the process as it stood when it was thrown.
\<close>

definition Check ::
  "CheckComputationOptions \<Rightarrow> Nnet \<Rightarrow> ComponentProperties \<Rightarrow> NnetComputation \<Rightarrow> Process
     \<Rightarrow> Process \<times> (error + unit)" where
  "Check config nnet fl computation p =
     (case CheckComputationIndexes nnet fl computation of
        Inl e \<Rightarrow> (p, Inl e)
      | Inr u \<Rightarrow>
     (case Analyzer_Init nnet fl computation empty_analyzer of
        Inl e \<Rightarrow> (p, Inl e)
      | Inr a \<Rightarrow>
     (case CheckComputationOrder computation of
        Inl e \<Rightarrow> (p, Inl e)
      | Inr u \<Rightarrow>
     (case CheckComputationMatrixAccesses a p of
        (p', Inl e) \<Rightarrow> (p', Inl e)
      | (p', Inr u) \<Rightarrow>
     (case CheckComputationUndefined a of
        Inl e \<Rightarrow> (p', Inl e)
      | Inr u \<Rightarrow>
     if check_rewrite config then (p', CheckComputationRewrite a) else (p', Inr ()))))))"

section \<open>Query helpers\<close>

definition MatrixIsAccessedBeforeCommand :: "MatrixAccesses list \<Rightarrow> int \<Rightarrow> int \<Rightarrow> error + bool" where
  "MatrixIsAccessedBeforeCommand matrix_accesses_arg m command_index_arg =
     (if \<not> (0 < m \<and> m < int (length matrix_accesses_arg)) then Inl AssertFailed
      else
        let acc = matrix_accesses_arg ! nat m
        in if accesses acc = [] then Inr False
           else
             let first_command = command_index (hd (accesses acc))
             in if first_command \<noteq> allocate_command acc \<and> first_command < command_index_arg
                then Inr True
                else if first_command \<noteq> allocate_command acc \<and> 1 < length (accesses acc)
                then let second_command = command_index (accesses acc ! 1)
                     in if second_command < command_index_arg then Inr True else Inr False
                else Inr False)"

definition MatrixIsAccessedAfterCommand :: "MatrixAccesses list \<Rightarrow> int \<Rightarrow> int \<Rightarrow> error + bool" where
  "MatrixIsAccessedAfterCommand matrix_accesses_arg m command_index_arg =
     (if \<not> (0 < m \<and> m < int (length matrix_accesses_arg)) then Inl AssertFailed
      else
        let acc = matrix_accesses_arg ! nat m
        in if accesses acc = [] then Inr False
           else Inr (command_index (last (accesses acc)) > command_index_arg))"

section \<open>Properties and examples used in the statements\<close>

text \<open>A boundary list as the partitioner leaves it: sorted, without repetition, two points or more.\<close>

definition good_split :: "int list \<Rightarrow> bool" where
  "good_split p = (sorted p \<and> distinct p \<and> 2 \<le> length p)"


text \<open>
  The range of a view is the pair of positions that the two searches find in the
  boundary list of its matrix, both hitting their column exactly, moved by the first
  variable of the matrix.
\<close>

definition view_aligned :: "NnetComputation \<Rightarrow> ComputationVariables \<Rightarrow> nat \<Rightarrow> bool" where
  "view_aligned computation vars submatrix_index =
     (let s = submatrices computation ! submatrix_index;
          m = nat (matrix_index s);
          split = split_points vars ! m;
          base = matrix_to_variable_index vars ! m;
          i0 = lower_bound split 0 (length split) (col_offset s);
          i1 = lower_bound split i0 (length split - i0) (int32_add (col_offset s) (num_cols s))
      in 0 \<le> matrix_index s \<and> m < length (split_points vars) \<and>
         i0 < i1 \<and> i1 < length split \<and>
         split ! i0 = col_offset s \<and> split ! i1 = int32_add (col_offset s) (num_cols s) \<and>
         variable_ranges vars ! submatrix_index = (base + int i0, base + int i1))"


text \<open>
  Both binary searches of a view hit a boundary point exactly: the first finds the
  column offset, the second, started at the first's position, finds the column end.
\<close>

definition searches_hit :: "NnetComputation \<Rightarrow> ComputationVariables \<Rightarrow> nat \<Rightarrow> bool" where
  "searches_hit computation vars submatrix_index =
     (let s = submatrices computation ! submatrix_index;
          split = split_points vars ! nat (matrix_index s);
          i0 = lower_bound split 0 (length split) (col_offset s);
          i1 = lower_bound split i0 (length split - i0) (int32_add (col_offset s) (num_cols s))
      in i0 < length split \<and> split ! i0 = col_offset s \<and>
         i1 < length split \<and> split ! i1 = int32_add (col_offset s) (num_cols s))"

text \<open>The two columns that a view gives to the boundary list of its matrix.\<close>

definition view_points :: "SubMatrixInfo \<Rightarrow> int list" where
  "view_points s = [col_offset s, int32_add (col_offset s) (num_cols s)]"

text \<open>The columns given to matrix \<open>m\<close> by all the views but the null one.\<close>

definition matrix_points :: "NnetComputation \<Rightarrow> nat \<Rightarrow> int list" where
  "matrix_points computation m =
     concat (map (\<lambda>s. view_points (submatrices computation ! s))
       (filter (\<lambda>s. matrix_index (submatrices computation ! s) = int m)
          [1..<length (submatrices computation)]))"

text \<open>
  The programs on which \<open>ComputeSplitPoints\<close> returns: there is a null view, of no rows,
  and a null matrix; every other view names a matrix of the program; and every matrix
  but the null one is given two different columns or more by its views.
\<close>

definition partition_defined :: "NnetComputation \<Rightarrow> bool" where
  "partition_defined computation =
     (1 \<le> length (submatrices computation) \<and> 1 \<le> length (matrices computation) \<and>
      num_rows (submatrices computation ! 0) = 0 \<and>
      (\<forall>s\<in>set [1..<length (submatrices computation)].
         in_range (matrix_index (submatrices computation ! s)) (length (matrices computation))) \<and>
      (\<forall>m\<in>set [1..<length (matrices computation)].
         2 \<le> length (remdups (matrix_points computation m))))"

text \<open>The column end of a view is past its column offset, as \<open>int32\<close> numbers.\<close>

definition positive_width :: "SubMatrixInfo \<Rightarrow> bool" where
  "positive_width s = (col_offset s < int32_add (col_offset s) (num_cols s))"

text \<open>The sum of the column offset and the width of a view is an \<open>int32\<close>.\<close>

definition end_fits :: "SubMatrixInfo \<Rightarrow> bool" where
  "end_fits s = (- 2147483648 \<le> col_offset s + num_cols s \<and>
                 col_offset s + num_cols s < 2147483648)"

text \<open>The two columns of a view are among the points of its matrix.\<close>

definition view_points_pushed :: "NnetComputation \<Rightarrow> int list list \<Rightarrow> nat \<Rightarrow> bool" where
  "view_points_pushed computation sp s =
     (in_range (matrix_index (submatrices computation ! s)) (length sp) \<and>
      col_offset (submatrices computation ! s)
        \<in> set (sp ! nat (matrix_index (submatrices computation ! s))) \<and>
      int32_add (col_offset (submatrices computation ! s)) (num_cols (submatrices computation ! s))
        \<in> set (sp ! nat (matrix_index (submatrices computation ! s))))"


text \<open>One matrix of five columns and three views of it, columns 0-5, 0-3 and 3-5.\<close>

definition example_computation :: NnetComputation where
  "example_computation =
     \<lparr>matrices = [\<lparr>m_num_rows = 0, m_num_cols = 0\<rparr>, \<lparr>m_num_rows = 2, m_num_cols = 5\<rparr>],
      submatrices =
        [\<lparr>matrix_index = 0, row_offset = 0, num_rows = 0, col_offset = 0, num_cols = 0\<rparr>,
         \<lparr>matrix_index = 1, row_offset = 0, num_rows = 2, col_offset = 0, num_cols = 5\<rparr>,
         \<lparr>matrix_index = 1, row_offset = 0, num_rows = 2, col_offset = 0, num_cols = 3\<rparr>,
         \<lparr>matrix_index = 1, row_offset = 1, num_rows = 1, col_offset = 3, num_cols = 2\<rparr>],
      commands = [], indexes = [], indexes_multi = [], indexes_ranges = [],
      num_precomputed_indexes = 0, input_output_info = []\<rparr>"

definition example_vars1 :: ComputationVariables where
  "example_vars1 = empty_variables
     \<lparr>split_points := [[], [0, 3, 5]], matrix_to_variable_index := [0, 0, 2], num_variables := 2\<rparr>"

definition example_vars2 :: ComputationVariables where
  "example_vars2 = example_vars1
     \<lparr>variable_ranges := [(0, 0), (0, 2), (0, 1), (1, 2)],
      full_column_range := [False, True, True, False]\<rparr>"


text \<open>
  One matrix and one view of it whose column end does not fit an \<open>int32\<close>: offset
  \<open>2^31 - 1\<close>, width 1.
\<close>

definition example_wrap_computation :: NnetComputation where
  "example_wrap_computation =
     \<lparr>matrices = [\<lparr>m_num_rows = 0, m_num_cols = 0\<rparr>, \<lparr>m_num_rows = 2, m_num_cols = 5\<rparr>],
      submatrices =
        [\<lparr>matrix_index = 0, row_offset = 0, num_rows = 0, col_offset = 0, num_cols = 0\<rparr>,
         \<lparr>matrix_index = 1, row_offset = 0, num_rows = 2, col_offset = 2147483647, num_cols = 1\<rparr>],
      commands = [], indexes = [], indexes_multi = [], indexes_ranges = [],
      num_precomputed_indexes = 0, input_output_info = []\<rparr>"

definition example_wrap_vars1 :: ComputationVariables where
  "example_wrap_vars1 = empty_variables
     \<lparr>split_points := [[], [- 2147483648, 2147483647]],
      matrix_to_variable_index := [0, 0, 1], num_variables := 1\<rparr>"

text \<open>A matrix whose recorded accesses are not in the order of the commands.\<close>

definition example_accesses :: "MatrixAccesses list" where
  "example_accesses =
     [empty_matrix_accesses,
      \<lparr>allocate_command = 0, deallocate_command = 9,
       accesses = [\<lparr>command_index = 4, access_type = kWriteAccess\<rparr>,
                   \<lparr>command_index = 2, access_type = kReadAccess\<rparr>],
       is_input = False, is_output = False\<rparr>]"


text \<open>A network of one component, with a given property bitset, and a Backprop command with no input derivative.\<close>

definition example_nnet :: "int \<Rightarrow> Nnet" where
  "example_nnet props =
     \<lparr>NumComponents = 1,
      GetComponent = (\<lambda>i. \<lparr>Properties = props, InputDim = 3, OutputDim = 2\<rparr>),
      NumNodes = 2,
      IsComponentNode = (\<lambda>n. n = 1),
      GetComponentForNode = (\<lambda>n. \<lparr>Properties = props, InputDim = 3, OutputDim = 2\<rparr>),
      IsInputNode = (\<lambda>n. n = 0),
      IsOutputNode = (\<lambda>n. False)\<rparr>"

definition example_flags :: ComponentProperties where
  "example_flags =
     \<lparr>kSimpleComponent = 1, kUpdatableComponent = 2, kPropagateInPlace = 16,
      kPropagateAdds = 32, kBackpropAdds = 128, kBackpropNeedsInput = 256,
      kBackpropNeedsOutput = 512, kBackpropInPlace = 1024, kStoresStats = 2048\<rparr>"

definition example_backprop :: Command where
  "example_backprop =
     \<lparr>command_type = kBackprop, arg1 = 1, arg2 = 0, arg3 = 0, arg4 = 0, arg5 = 3, arg6 = 0\<rparr>"


text \<open>The positions of the pass marker among the first \<open>n\<close> commands.\<close>

definition marker_positions :: "Command list \<Rightarrow> nat \<Rightarrow> nat list" where
  "marker_positions cmds n = filter (\<lambda>c. command_type (cmds ! c) = kNoOperationMarker) [0..<n]"


text \<open>A program given by the types of its commands.\<close>

definition example_program :: "CommandType list \<Rightarrow> NnetComputation" where
  "example_program tys =
     example_computation\<lparr>commands :=
       map (\<lambda>ty. \<lparr>command_type = ty, arg1 = 0, arg2 = 0, arg3 = 0, arg4 = 0, arg5 = 0, arg6 = 0\<rparr>) tys\<rparr>"


text \<open>
  The lifecycle conditions on one buffer record: allocation against the input flag and
  the first access, deallocation against the output flag and the last access.
\<close>

definition lifecycle_ok :: "MatrixAccesses \<Rightarrow> bool" where
  "lifecycle_ok acc =
     ((if is_input acc then allocate_command acc = - 1
       else allocate_command acc \<noteq> - 1 \<and> accesses acc \<noteq> [] \<and>
            \<not> command_index (hd (accesses acc)) < allocate_command acc) \<and>
      (if is_output acc then deallocate_command acc = - 1
       else deallocate_command acc \<noteq> - 1 \<and>
            (if accesses acc = [] then is_input acc
             else \<not> deallocate_command acc \<le> command_index (last (accesses acc)))))"

text \<open>An input that is never accessed and is not an output.\<close>

definition unused_input :: "MatrixAccesses \<Rightarrow> bool" where
  "unused_input acc = (accesses acc = [] \<and> is_input acc \<and> \<not> is_output acc)"

text \<open>From one process state to a later one, at most one warning, and only if none was given before.\<close>

definition warned_at_most_once :: "Process \<Rightarrow> Process \<Rightarrow> bool" where
  "warned_at_most_once p p' =
     (p' = p \<or>
      (\<not> computation_checker_warned_unused_input p \<and>
       computation_checker_warned_unused_input p' \<and>
       (\<exists>w. warnings p' = warnings p @ [w])))"

definition example_analyzer :: Analyzer where
  "example_analyzer = empty_analyzer
     \<lparr>matrix_accesses :=
        [empty_matrix_accesses,
         \<lparr>allocate_command = - 1, deallocate_command = 7, accesses = [],
          is_input = True, is_output = False\<rparr>,
         \<lparr>allocate_command = 0, deallocate_command = 6,
          accesses = [\<lparr>command_index = 1, access_type = kWriteAccess\<rparr>,
                      \<lparr>command_index = 3, access_type = kReadAccess\<rparr>],
          is_input = False, is_output = False\<rparr>,
         \<lparr>allocate_command = - 1, deallocate_command = 8, accesses = [],
          is_input = True, is_output = False\<rparr>]\<rparr>"

definition fresh_process :: Process where
  "fresh_process = \<lparr>computation_checker_warned_unused_input = False, warnings = []\<rparr>"


text \<open>An access list with a pure read at some position and a write or read-write at a later one.\<close>

definition read_then_modified :: "Access list \<Rightarrow> bool" where
  "read_then_modified acc =
     (\<exists>i j. i < j \<and> j < length acc \<and> access_type (acc ! i) = kReadAccess \<and>
            access_type (acc ! j) \<noteq> kReadAccess)"

text \<open>Every variable with an access list has an owning matrix with a buffer record.\<close>

definition variables_have_matrix :: "Analyzer \<Rightarrow> bool" where
  "variables_have_matrix a =
     (\<forall>v<length (variable_accesses a).
        v < length (variable_to_matrix (variables a)) \<and>
        in_range (variable_to_matrix (variables a) ! v) (length (matrix_accesses a)))"

text \<open>
  The checks of \<open>Check\<close> other than the rewrite-safety check all pass: started in
  process \<open>p\<close> they leave process \<open>p'\<close>, on the analysis \<open>a\<close> of the program.
\<close>

definition other_checks_pass ::
  "Nnet \<Rightarrow> ComponentProperties \<Rightarrow> NnetComputation \<Rightarrow> Process \<Rightarrow> Process \<Rightarrow> Analyzer \<Rightarrow> bool" where
  "other_checks_pass nnet fl computation p p' a =
     (CheckComputationIndexes nnet fl computation = Inr () \<and>
      Analyzer_Init nnet fl computation empty_analyzer = Inr a \<and>
      CheckComputationOrder computation = Inr () \<and>
      CheckComputationMatrixAccesses a p = (p', Inr ()) \<and>
      CheckComputationUndefined a = Inr ())"

text \<open>What the rewrite-safety check asks of one variable.\<close>

definition rewrite_ok :: "Analyzer \<Rightarrow> nat \<Rightarrow> bool" where
  "rewrite_ok a v =
     (\<not> (variable_accesses a ! v = [] \<and>
         \<not> is_input (matrix_accesses a ! nat (variable_to_matrix (variables a) ! v))) \<and>
      \<not> read_then_modified (variable_accesses a ! v))"


text \<open>
  A program that copies an input matrix into an output matrix; with the extra command
  it then adds the output back into the input, in place.
\<close>

definition example_io_nnet :: Nnet where
  "example_io_nnet = (example_nnet 0)\<lparr>IsInputNode := (\<lambda>n. n = 0), IsOutputNode := (\<lambda>n. n = 1)\<rparr>"

definition example_copy_program :: "Command list \<Rightarrow> NnetComputation" where
  "example_copy_program extra =
     \<lparr>matrices = [\<lparr>m_num_rows = 0, m_num_cols = 0\<rparr>, \<lparr>m_num_rows = 2, m_num_cols = 3\<rparr>,
                  \<lparr>m_num_rows = 2, m_num_cols = 3\<rparr>],
      submatrices =
        [\<lparr>matrix_index = 0, row_offset = 0, num_rows = 0, col_offset = 0, num_cols = 0\<rparr>,
         \<lparr>matrix_index = 1, row_offset = 0, num_rows = 2, col_offset = 0, num_cols = 3\<rparr>,
         \<lparr>matrix_index = 2, row_offset = 0, num_rows = 2, col_offset = 0, num_cols = 3\<rparr>],
      commands =
        [\<lparr>command_type = kAllocMatrixZeroed, arg1 = 2, arg2 = 0, arg3 = 0, arg4 = 0, arg5 = 0, arg6 = 0\<rparr>,
         \<lparr>command_type = kMatrixCopy, arg1 = 2, arg2 = 1, arg3 = 0, arg4 = 0, arg5 = 0, arg6 = 0\<rparr>]
        @ extra @
        [\<lparr>command_type = kNoOperationMarker, arg1 = 0, arg2 = 0, arg3 = 0, arg4 = 0, arg5 = 0, arg6 = 0\<rparr>,
         \<lparr>command_type = kDeallocMatrix, arg1 = 1, arg2 = 0, arg3 = 0, arg4 = 0, arg5 = 0, arg6 = 0\<rparr>],
      indexes = [], indexes_multi = [], indexes_ranges = [],
      num_precomputed_indexes = 0, input_output_info = [(0, 1, 0), (1, 2, 0)]\<rparr>"

definition example_add_back :: Command where
  "example_add_back =
     \<lparr>command_type = kMatrixAdd, arg1 = 1, arg2 = 2, arg3 = 0, arg4 = 0, arg5 = 0, arg6 = 0\<rparr>"


text \<open>The analysis of the program with the extra command.\<close>

definition example_inplace_analyzer :: Analyzer where
  "example_inplace_analyzer =
     \<lparr>variables =
        \<lparr>split_points = [[], [0, 3], [0, 3]],
         matrix_to_variable_index = [0, 0, 1, 2], num_variables = 2,
         variable_ranges = [(0, 0), (0, 1), (1, 2)],
         full_column_range = [False, True, True],
         submatrix_to_matrix = [0, 1, 2],
         submatrix_is_whole_matrix = [False, True, True],
         variable_to_matrix = [1, 2]\<rparr>,
      command_attributes =
        [empty_attributes\<lparr>variables_written := [1], matrices_written := [2]\<rparr>,
         \<lparr>variables_read = [0], variables_written = [1],
          submatrices_read = [1], submatrices_written = [2],
          matrices_read = [1], matrices_written = [2], has_side_effects = False\<rparr>,
         \<lparr>variables_read = [0, 1], variables_written = [0],
          submatrices_read = [1, 2], submatrices_written = [1],
          matrices_read = [1, 2], matrices_written = [1], has_side_effects = False\<rparr>,
         empty_attributes, empty_attributes],
      variable_accesses =
        [[\<lparr>command_index = 1, access_type = kReadAccess\<rparr>,
          \<lparr>command_index = 2, access_type = kReadWriteAccess\<rparr>],
         [\<lparr>command_index = 0, access_type = kWriteAccess\<rparr>,
          \<lparr>command_index = 1, access_type = kWriteAccess\<rparr>,
          \<lparr>command_index = 2, access_type = kReadAccess\<rparr>]],
      matrix_accesses =
        [empty_matrix_accesses,
         \<lparr>allocate_command = - 1, deallocate_command = 4,
          accesses =
            [\<lparr>command_index = 1, access_type = kReadAccess\<rparr>,
             \<lparr>command_index = 2, access_type = kReadWriteAccess\<rparr>],
          is_input = True, is_output = False\<rparr>,
         \<lparr>allocate_command = 0, deallocate_command = - 1,
          accesses =
            [\<lparr>command_index = 0, access_type = kWriteAccess\<rparr>,
             \<lparr>command_index = 1, access_type = kWriteAccess\<rparr>,
             \<lparr>command_index = 2, access_type = kReadAccess\<rparr>],
          is_input = False, is_output = True\<rparr>]\<rparr>"


text \<open>The scatter and the gather variants of the \<open>*-multi\<close> commands.\<close>

definition scatter_command :: "Command \<Rightarrow> bool" where
  "scatter_command c = (command_type c = kAddToRowsMulti \<or> command_type c = kCopyToRowsMulti)"

definition gather_command :: "Command \<Rightarrow> bool" where
  "gather_command c = (command_type c = kAddRowsMulti \<or> command_type c = kCopyRowsMulti)"

text \<open>A pair other than the "no source" pair: its view index is not \<open>-1\<close>.\<close>

definition not_sentinel :: "int \<times> int \<Rightarrow> bool" where
  "not_sentinel p = (fst p \<noteq> - 1)"

text \<open>
  What the bounds check asks of a \<open>*-multi\<close> command before it looks for duplicates:
  indexes in range, one pair per row, and every pair either the sentinel or a row of
  another view of the same width.
\<close>

definition multi_prechecked :: "NnetComputation \<Rightarrow> Command \<Rightarrow> bool" where
  "multi_prechecked computation c =
     (let subs = submatrices computation;
          pairs = indexes_multi computation ! nat (arg2 c)
      in 1 \<le> arg1 c \<and> arg1 c < int (length subs) \<and>
         in_range (arg2 c) (length (indexes_multi computation)) \<and>
         int (length pairs) = num_rows (subs ! nat (arg1 c)) \<and>
         (\<forall>p\<in>set pairs.
            if fst p = - 1 then snd p = - 1
            else 1 \<le> fst p \<and> fst p < int (length subs) \<and>
                 0 \<le> snd p \<and> snd p < num_rows (subs ! nat (fst p)) \<and>
                 fst p \<noteq> arg1 c \<and>
                 num_cols (subs ! nat (fst p)) = num_cols (subs ! nat (arg1 c))))"

text \<open>The message of the duplicate check.\<close>

definition duplicate_message :: "int \<times> int \<Rightarrow> string" where
  "duplicate_message p =
     ''Duplicate element '' @ string_of_int (fst p) @ '','' @ string_of_int (snd p) @
     '' found in indexes for {add,copy}-to-rows-multi command.''"


text \<open>A \<open>*-multi\<close> command on view 1 and three pair lists: a duplicate, two sentinels, two distinct rows.\<close>

definition example_multi_command :: "CommandType \<Rightarrow> int \<Rightarrow> Command" where
  "example_multi_command ty table =
     \<lparr>command_type = ty, arg1 = 1, arg2 = table, arg3 = 0, arg4 = 0, arg5 = 0, arg6 = 0\<rparr>"

definition example_multi_computation :: "Command \<Rightarrow> NnetComputation" where
  "example_multi_computation c =
     (example_copy_program [c])
       \<lparr>indexes_multi := [[(2, 0), (2, 0)], [(- 1, - 1), (- 1, - 1)], [(2, 0), (2, 1)]]\<rparr>"


text \<open>The variables of the example of one matrix and three views, after \<open>Init\<close>.\<close>

definition example_vars :: ComputationVariables where
  "example_vars = example_vars2
     \<lparr>submatrix_to_matrix := [0, 1, 1, 1],
      submatrix_is_whole_matrix := [False, True, False, False],
      variable_to_matrix := [1, 1]\<rparr>"


text \<open>
  The attributes of a command whose views are touched as listed, in that order: each
  view recorded with its access type on a fresh \<open>CommandAttributes\<close>, then the six
  sets sorted.
\<close>

definition classified :: "ComputationVariables \<Rightarrow> (int \<times> AccessType) list \<Rightarrow> error + CommandAttributes" where
  "classified vars touches =
     and_then (for_loop touches (\<lambda>(s, access). RecordAccessForSubmatrix vars s access)
                 empty_attributes) (\<lambda>attr.
     Inr (sort_attributes attr))"

text \<open>A view index inside the four per-view tables.\<close>

definition views_in_range :: "ComputationVariables \<Rightarrow> int \<Rightarrow> bool" where
  "views_in_range vars s =
     (in_range s (length (submatrix_to_matrix vars)) \<and>
      in_range s (length (submatrix_is_whole_matrix vars)) \<and>
      in_range s (length (full_column_range vars)) \<and>
      in_range s (length (variable_ranges vars)))"


text \<open>The views, other than the null one, that a list of touches records as read, and as written.\<close>

definition read_views :: "(int \<times> AccessType) list \<Rightarrow> int list" where
  "read_views touches = map fst (filter (\<lambda>(s, access). s \<noteq> 0 \<and> access \<noteq> kWriteAccess) touches)"

definition written_views :: "(int \<times> AccessType) list \<Rightarrow> int list" where
  "written_views touches = map fst (filter (\<lambda>(s, access). s \<noteq> 0 \<and> access \<noteq> kReadAccess) touches)"


text \<open>The copy program with a gather-rows copy from view 1 into view 2 under a given index list.\<close>

definition example_rows_computation :: "int list \<Rightarrow> NnetComputation" where
  "example_rows_computation index_list =
     (example_copy_program
        [\<lparr>command_type = kCopyRows, arg1 = 2, arg2 = 1, arg3 = 0, arg4 = 0, arg5 = 0, arg6 = 0\<rparr>])
       \<lparr>indexes := [index_list]\<rparr>"

definition example_copy_rows :: Command where
  "example_copy_rows =
     \<lparr>command_type = kCopyRows, arg1 = 2, arg2 = 1, arg3 = 0, arg4 = 0, arg5 = 0, arg6 = 0\<rparr>"


section \<open>Loops and library functions\<close>

lemma and_then_Inr: "and_then m k = Inr y \<longleftrightarrow> (\<exists>x. m = Inr x \<and> k x = Inr y)"
  by (cases m) (simp_all add: and_then_def)

lemma for_loop_rule:
  assumes "for_loop is body s = Inr s'"
    and "P [] s"
    and "\<And>ds i rest t t'. is = ds @ i # rest \<Longrightarrow> P ds t \<Longrightarrow> body i t = Inr t' \<Longrightarrow> P (ds @ [i]) t'"
  shows "P is s'"
proof -
  have "for_loop js body t = Inr s' \<Longrightarrow> is = ds @ js \<Longrightarrow> P ds t \<Longrightarrow> P is s'" for js ds t
  proof (induction js arbitrary: ds t)
    case Nil
    then show ?case by simp
  next
    case (Cons j js)
    from Cons.prems(1) obtain t' where b: "body j t = Inr t'" and r: "for_loop js body t' = Inr s'"
      by (auto split: sum.splits)
    have "P (ds @ [j]) t'" using assms(3)[OF Cons.prems(2) Cons.prems(3) b] .
    with Cons.IH[OF r, of "ds @ [j]"] Cons.prems(2) show ?case by simp
  qed
  from this[OF assms(1), of "[]"] assms(2) show ?thesis by simp
qed

lemma SortAndUniq_sorted: "sorted (SortAndUniq xs)"
  by (simp add: SortAndUniq_def sorted_remdups_adj)

lemma distinct_remdups_adj_sorted: "sorted xs \<Longrightarrow> distinct (remdups_adj (xs :: 'a::linorder list))"
  by (induction xs rule: remdups_adj.induct) (auto)

lemma SortAndUniq_distinct: "distinct (SortAndUniq xs)"
  by (simp add: SortAndUniq_def distinct_remdups_adj_sorted)

lemma SortAndUniq_set: "set (SortAndUniq xs) = set xs"
  by (simp add: SortAndUniq_def)

lemma upt_split_less: "[a..<b] = ds @ i # rest \<Longrightarrow> (\<forall>m\<in>set ds. m < i) \<and> a \<le> i \<and> i < b"
proof -
  assume h: "[a..<b] = ds @ i # rest"
  have "sorted_wrt (<) [a..<b]" by simp
  with h have "sorted_wrt (<) (ds @ i # rest)" by simp
  then have 1: "\<forall>m\<in>set ds. m < i" by (auto simp: sorted_wrt_append)
  have "i \<in> set [a..<b]" using h by simp
  then show ?thesis using 1 by simp
qed

lemma for_loop_invariant:
  assumes "for_loop is body s = Inr s'" and "I s"
    and "\<And>i t t'. i \<in> set is \<Longrightarrow> I t \<Longrightarrow> body i t = Inr t' \<Longrightarrow> I t'"
  shows "I s'"
  by (rule for_loop_rule[OF assms(1), where P = "\<lambda>ds t. I t"])
     (use assms(2,3) in auto)

lemma for_loop_unit:
  "for_loop is body () = Inr () \<longleftrightarrow> (\<forall>i\<in>set is. body i () = Inr ())"
  by (induction "is") (auto split: sum.splits)

lemma first_err_Inr: "first_err cs = Inr () \<longleftrightarrow> (\<forall>c\<in>set cs. \<not> fst c)"
  by (induction cs rule: first_err.induct) auto

lemma first_err_cases: "first_err cs = Inr () \<or> (\<exists>msg. first_err cs = Inl (KaldiErr msg))"
  by (induction cs rule: first_err.induct) auto

lemma for_loop_unit_cases:
  assumes "\<And>i. i \<in> set is \<Longrightarrow> body i () = Inr () \<or> (\<exists>msg. body i () = Inl (KaldiErr msg))"
  shows "for_loop is body () = Inr () \<or> (\<exists>msg. for_loop is body () = Inl (KaldiErr msg))"
  using assms
proof (induction "is")
  case Nil
  then show ?case by simp
next
  case (Cons i rest)
  from Cons.prems[of i] have "body i () = Inr () \<or> (\<exists>msg. body i () = Inl (KaldiErr msg))"
    by simp
  moreover have "for_loop rest body () = Inr () \<or> (\<exists>msg. for_loop rest body () = Inl (KaldiErr msg))"
    using Cons by simp
  ultimately show ?case by (auto split: sum.splits)
qed

lemma for_loop_preserves:
  assumes "for_loop is body s = Inr s'"
    and "\<And>i t t'. body i t = Inr t' \<Longrightarrow> f t' = f t"
  shows "f s' = f s"
  using assms(1)
proof (induction "is" arbitrary: s)
  case Nil
  then show ?case by simp
next
  case (Cons i rest)
  from Cons.prems obtain t where b: "body i s = Inr t" and r: "for_loop rest body t = Inr s'"
    by (auto split: sum.splits)
  from Cons.IH[OF r] assms(2)[OF b] show ?case by simp
qed


lemma for_loop_total:
  assumes "I s"
    and "\<And>i t. i \<in> set is \<Longrightarrow> I t \<Longrightarrow> \<exists>t'. body i t = Inr t' \<and> I t'"
  shows "\<exists>s'. for_loop is body s = Inr s' \<and> I s'"
  using assms
proof (induction "is" arbitrary: s)
  case Nil
  then show ?case by simp
next
  case (Cons i rest)
  from Cons.prems(2)[of i s] Cons.prems(1) obtain t where
    b: "body i s = Inr t" and t: "I t" by auto
  have "\<exists>s'. for_loop rest body t = Inr s' \<and> I s'"
    by (rule Cons.IH[OF t]) (use Cons.prems(2) in auto)
  with b show ?case by simp
qed

lemma for_loop_total_or:
  assumes "I s"
    and "\<And>i t. i \<in> set is \<Longrightarrow> I t \<Longrightarrow> (\<exists>t'. body i t = Inr t' \<and> I t') \<or> body i t = Inl e"
  shows "(\<exists>s'. for_loop is body s = Inr s' \<and> I s') \<or> for_loop is body s = Inl e"
  using assms
proof (induction "is" arbitrary: s)
  case Nil
  then show ?case by simp
next
  case (Cons i rest)
  from Cons.prems(2)[of i s] Cons.prems(1)
  consider (ok) t where "body i s = Inr t" "I t" | (err) "body i s = Inl e" by auto
  then show ?case
  proof cases
    case ok
    have "(\<exists>s'. for_loop rest body t = Inr s' \<and> I s') \<or> for_loop rest body t = Inl e"
      by (rule Cons.IH[OF ok(2)]) (use Cons.prems(2) in auto)
    with ok(1) show ?thesis by simp
  next
    case err
    then show ?thesis by simp
  qed
qed


section \<open>Region partitioner: boundary lists and view ranges\<close>

lemma split_push_loop:
  "for_loop is (split_push computation) v = Inr v' \<Longrightarrow>
     length (split_points v') = length (split_points v)"
proof (induction "is" arbitrary: v)
  case Nil
  then show ?case by simp
next
  case (Cons i rest)
  from Cons.prems obtain t where b: "split_push computation i v = Inr t"
    and r: "for_loop rest (split_push computation) t = Inr v'"
    by (auto split: sum.splits)
  from b have "length (split_points t) = length (split_points v)"
    by (auto simp: split_push_def Let_def split: if_splits)
  with Cons.IH[OF r] show ?case by simp
qed

lemma split_sort_loop:
  assumes "for_loop [1..<n] split_sort v = Inr v'" and "n \<le> length (split_points v)"
  shows "length (split_points v') = length (split_points v) \<and>
         (\<forall>m\<in>set [1..<n]. good_split (split_points v' ! m))"
proof (rule for_loop_rule[OF assms(1),
        where P = "\<lambda>ds t. length (split_points t) = length (split_points v) \<and>
                     (\<forall>m\<in>set ds. good_split (split_points t ! m))"])
  show "length (split_points v) = length (split_points v) \<and>
        (\<forall>m\<in>set []. good_split (split_points v ! m))" by simp
next
  fix ds i rest t t'
  assume sp: "[1..<n] = ds @ i # rest"
    and inv: "length (split_points t) = length (split_points v) \<and>
              (\<forall>m\<in>set ds. good_split (split_points t ! m))"
    and body: "split_sort i t = Inr t'"
  from upt_split_less[OF sp] have lt: "\<forall>m\<in>set ds. m < i" and i: "i < n" by auto
  from body have t': "split_points t' = (split_points t)[i := SortAndUniq (split_points t ! i)]"
    and len: "2 \<le> length (SortAndUniq (split_points t ! i))"
    by (auto simp: split_sort_def Let_def split: if_splits)
  have "good_split (split_points t' ! i)"
    using t' len i inv assms(2)
    by (simp add: good_split_def SortAndUniq_sorted SortAndUniq_distinct)
  moreover have "\<forall>m\<in>set ds. good_split (split_points t' ! m)"
    using t' lt inv by auto
  ultimately show "length (split_points t') = length (split_points v) \<and>
        (\<forall>m\<in>set (ds @ [i]). good_split (split_points t' ! m))"
    using t' inv by simp
qed

lemma split_count_loop:
  assumes "for_loop [1..<n] split_count v = Inr v'"
    and "length (matrix_to_variable_index v) = n + 1"
  shows "split_points v' = split_points v \<and>
         length (matrix_to_variable_index v') = n + 1 \<and>
         matrix_to_variable_index v' ! 0 = matrix_to_variable_index v ! 0 \<and>
         matrix_to_variable_index v' ! 1 = matrix_to_variable_index v ! 1 \<and>
         (\<forall>m\<in>set [1..<n]. matrix_to_variable_index v' ! (m + 1) =
              matrix_to_variable_index v' ! m + (int (length (split_points v ! m)) - 1))"
proof (rule for_loop_rule[OF assms(1),
        where P = "\<lambda>ds t. split_points t = split_points v \<and>
           length (matrix_to_variable_index t) = n + 1 \<and>
           matrix_to_variable_index t ! 0 = matrix_to_variable_index v ! 0 \<and>
           matrix_to_variable_index t ! 1 = matrix_to_variable_index v ! 1 \<and>
           (\<forall>m\<in>set ds. matrix_to_variable_index t ! (m + 1) =
              matrix_to_variable_index t ! m + (int (length (split_points v ! m)) - 1))"])
  show "split_points v = split_points v \<and>
    length (matrix_to_variable_index v) = n + 1 \<and>
    matrix_to_variable_index v ! 0 = matrix_to_variable_index v ! 0 \<and>
    matrix_to_variable_index v ! 1 = matrix_to_variable_index v ! 1 \<and>
    (\<forall>m\<in>set []. matrix_to_variable_index v ! (m + 1) =
         matrix_to_variable_index v ! m + (int (length (split_points v ! m)) - 1))"
    using assms(2) by simp
next
  fix ds i rest t t'
  assume sp: "[1..<n] = ds @ i # rest"
    and inv: "split_points t = split_points v \<and>
           length (matrix_to_variable_index t) = n + 1 \<and>
           matrix_to_variable_index t ! 0 = matrix_to_variable_index v ! 0 \<and>
           matrix_to_variable_index t ! 1 = matrix_to_variable_index v ! 1 \<and>
           (\<forall>m\<in>set ds. matrix_to_variable_index t ! (m + 1) =
              matrix_to_variable_index t ! m + (int (length (split_points v ! m)) - 1))"
    and body: "split_count i t = Inr t'"
  from upt_split_less[OF sp] have lt: "\<forall>m\<in>set ds. m < i" and i: "1 \<le> i" "i < n" by auto
  from body have mv: "matrix_to_variable_index t' = (matrix_to_variable_index t)
       [i + 1 := matrix_to_variable_index t ! i + (int (length (split_points t ! i)) - 1)]"
    and sp': "split_points t' = split_points t"
    by (auto simp: split_count_def Let_def split: if_splits)
  have a: "matrix_to_variable_index t' ! (i + 1) =
       matrix_to_variable_index t' ! i + (int (length (split_points v ! i)) - 1)"
    using mv inv i by simp
  have b: "\<forall>m\<in>set ds. matrix_to_variable_index t' ! (m + 1) =
              matrix_to_variable_index t' ! m + (int (length (split_points v ! m)) - 1)"
    using mv inv lt by auto
  show "split_points t' = split_points v \<and>
           length (matrix_to_variable_index t') = n + 1 \<and>
           matrix_to_variable_index t' ! 0 = matrix_to_variable_index v ! 0 \<and>
           matrix_to_variable_index t' ! 1 = matrix_to_variable_index v ! 1 \<and>
           (\<forall>m\<in>set (ds @ [i]). matrix_to_variable_index t' ! (m + 1) =
              matrix_to_variable_index t' ! m + (int (length (split_points v ! m)) - 1))"
    using a b sp' mv inv i by simp
qed

lemma resize_length: "length (resize n d xs) = n"
  by (simp add: resize_def)

lemma ComputeSplitPoints_Inr:
  assumes "ComputeSplitPoints computation v0 = Inr v1"
  shows "length (split_points v1) = length (matrices computation) \<and>
         1 \<le> length (matrices computation) \<and>
         length (matrix_to_variable_index v1) = length (matrices computation) + 1 \<and>
         matrix_to_variable_index v1 ! 0 = 0 \<and>
         (\<forall>m\<in>set [1..<length (matrices computation)].
            good_split (split_points v1 ! m) \<and>
            matrix_to_variable_index v1 ! (m + 1) =
              matrix_to_variable_index v1 ! m + (int (length (split_points v1 ! m)) - 1))"
proof -
  let ?n = "length (matrices computation)"
  let ?k = "length (submatrices computation)"
  let ?w1 = "v0\<lparr>split_points := resize ?n [] (split_points v0)\<rparr>"
  from assms obtain w2 w3 w4 where
    l1: "for_loop [1..<?k] (split_push computation) ?w1 = Inr w2" and
    l2: "for_loop [1..<?n] split_sort w2 = Inr w3" and
    n0: "?n \<noteq> 0" and
    l3: "for_loop [1..<?n] split_count
          (w3\<lparr>matrix_to_variable_index :=
             (resize (?n + 1) 0 (matrix_to_variable_index w3))[0 := 0, 1 := 0]\<rparr>) = Inr w4" and
    v1: "v1 = w4\<lparr>num_variables := last (matrix_to_variable_index w4)\<rparr>"
    by (auto simp: ComputeSplitPoints_def Let_def and_then_Inr split: if_splits)
  have len2: "length (split_points w2) = ?n"
    using split_push_loop[OF l1] by (simp add: resize_length)
  from split_sort_loop[OF l2] len2
  have len3: "length (split_points w3) = ?n"
    and good: "\<forall>m\<in>set [1..<?n]. good_split (split_points w3 ! m)" by auto
  let ?w3 = "w3\<lparr>matrix_to_variable_index :=
             (resize (?n + 1) 0 (matrix_to_variable_index w3))[0 := 0, 1 := 0]\<rparr>"
  have "length (matrix_to_variable_index ?w3) = ?n + 1" by (simp add: resize_length)
  from split_count_loop[OF l3 this]
  have sp4: "split_points w4 = split_points w3"
    and len4: "length (matrix_to_variable_index w4) = ?n + 1"
    and z: "matrix_to_variable_index w4 ! 0 = matrix_to_variable_index ?w3 ! 0"
    and rel: "\<forall>m\<in>set [1..<?n]. matrix_to_variable_index w4 ! (m + 1) =
              matrix_to_variable_index w4 ! m + (int (length (split_points w3 ! m)) - 1)"
    by auto
  have z0: "matrix_to_variable_index w4 ! 0 = 0"
    using z n0 by (simp add: resize_length nth_list_update)
  have n1: "1 \<le> ?n" using n0 by (cases "matrices computation") simp_all
  show ?thesis
    using v1 sp4 len3 len4 z0 rel good n1 by simp
qed

lemma lower_bound_0 [simp]: "lower_bound xs first 0 v = first"
  by (simp add: lower_bound.simps[of xs first 0 v])

lemma lower_bound_bounds:
  "first \<le> lower_bound xs first len v \<and> lower_bound xs first len v \<le> first + len"
proof (induction xs first len v rule: lower_bound.induct)
  case (1 xs first len v)
  show ?case
  proof (cases "len = 0")
    case True
    then show ?thesis by simp
  next
    case False
    let ?half = "len div 2"
    have hl: "?half < len" using False by simp
    show ?thesis
    proof (cases "xs ! (first + ?half) < v")
      case True
      then have "lower_bound xs first len v = lower_bound xs (first + ?half + 1) (len - ?half - 1) v"
        using False by (simp add: lower_bound.simps[of xs first len v] Let_def)
      with 1(1)[OF False refl refl True] hl show ?thesis by linarith
    next
      case g: False
      then have "lower_bound xs first len v = lower_bound xs first ?half v"
        using False by (simp add: lower_bound.simps[of xs first len v] Let_def)
      with 1(2)[OF False refl refl g] hl show ?thesis by linarith
    qed
  qed
qed

lemma lower_bound_sorted:
  assumes "sorted xs" and "first + len \<le> length xs"
  shows "(\<forall>i. first \<le> i \<and> i < lower_bound xs first len v \<longrightarrow> xs ! i < v) \<and>
         (\<forall>i. lower_bound xs first len v \<le> i \<and> i < first + len \<longrightarrow> v \<le> xs ! i)"
  using assms
proof (induction xs first len v rule: lower_bound.induct)
  case (1 xs first len v)
  show ?case
  proof (cases "len = 0")
    case True
    then show ?thesis by simp
  next
    case False
    let ?half = "len div 2"
    let ?mid = "first + ?half"
    have hl: "?half < len" using False by simp
    have mid: "?mid < length xs" using hl 1(4) by linarith
    show ?thesis
    proof (cases "xs ! ?mid < v")
      case True
      have eq: "lower_bound xs first len v = lower_bound xs (?mid + 1) (len - ?half - 1) v"
        using False True by (simp add: lower_bound.simps[of xs first len v] Let_def)
      have r: "?mid + 1 + (len - ?half - 1) \<le> length xs" using hl 1(4) by linarith
      note ih = 1(1)[OF False refl refl True 1(3) r]
      have low: "xs ! i < v" if "first \<le> i" "i < lower_bound xs first len v" for i
      proof (cases "i \<le> ?mid")
        case True
        then have "xs ! i \<le> xs ! ?mid" using 1(3) mid by (simp add: sorted_iff_nth_mono)
        with \<open>xs ! ?mid < v\<close> show ?thesis by simp
      next
        case False
        with ih that eq show ?thesis by simp
      qed
      have high: "v \<le> xs ! i" if "lower_bound xs first len v \<le> i" "i < first + len" for i
      proof -
        have "?mid + 1 + (len - ?half - 1) = first + len" using hl by linarith
        with ih that eq show ?thesis by simp
      qed
      show ?thesis using low high by blast
    next
      case g: False
      have eq: "lower_bound xs first len v = lower_bound xs first ?half v"
        using False g by (simp add: lower_bound.simps[of xs first len v] Let_def)
      have r: "first + ?half \<le> length xs" using hl 1(4) by linarith
      note ih = 1(2)[OF False refl refl g 1(3) r]
      have low: "xs ! i < v" if "first \<le> i" "i < lower_bound xs first len v" for i
        using ih that eq by simp
      have high: "v \<le> xs ! i" if "lower_bound xs first len v \<le> i" "i < first + len" for i
      proof (cases "i < ?mid")
        case True
        with ih that eq show ?thesis by simp
      next
        case False
        then have "xs ! ?mid \<le> xs ! i" using 1(3) 1(4) that by (simp add: sorted_iff_nth_mono)
        with g show ?thesis by simp
      qed
      show ?thesis using low high by blast
    qed
  qed
qed

lemma range_body_Inr:
  assumes "range_body computation i t = Inr t'"
  shows "split_points t' = split_points t \<and>
         matrix_to_variable_index t' = matrix_to_variable_index t \<and>
         length (variable_ranges t') = length (variable_ranges t) \<and>
         (\<forall>j. j \<noteq> i \<longrightarrow> variable_ranges t' ! j = variable_ranges t ! j) \<and>
         (i < length (variable_ranges t) \<longrightarrow>
         (let s = submatrices computation ! i;
              m = nat (matrix_index s);
              split = split_points t ! m;
              base = matrix_to_variable_index t ! m;
              i0 = lower_bound split 0 (length split) (col_offset s);
              i1 = lower_bound split i0 (length split - i0) (int32_add (col_offset s) (num_cols s))
          in 0 \<le> matrix_index s \<and> m < length (split_points t) \<and>
             i0 < i1 \<and> i1 < length split \<and>
             split ! i0 = col_offset s \<and> split ! i1 = int32_add (col_offset s) (num_cols s) \<and>
             variable_ranges t' ! i = (base + int i0, base + int i1)))"
proof -
  define s where "s = submatrices computation ! i"
  define m where "m = nat (matrix_index s)"
  define split where "split = split_points t ! m"
  define base where "base = matrix_to_variable_index t ! m"
  define i0 where "i0 = lower_bound split 0 (length split) (col_offset s)"
  define i1 where "i1 = lower_bound split i0 (length split - i0) (int32_add (col_offset s) (num_cols s))"
  note defs = s_def[symmetric] m_def[symmetric] split_def[symmetric] base_def[symmetric]
    i0_def[symmetric] i1_def[symmetric]
  have rb: "range_body computation i t =
     (if \<not> in_range (matrix_index s) (length (split_points t)) then Inl UndefinedBehaviour
      else if i0 = length split then Inl UndefinedBehaviour
      else if split ! i0 \<noteq> col_offset s then Inl AssertFailed
      else if i1 = length split then Inl UndefinedBehaviour
      else if split ! i1 \<noteq> int32_add (col_offset s) (num_cols s) then Inl AssertFailed
      else if \<not> m < length (matrix_to_variable_index t) then Inl UndefinedBehaviour
      else if \<not> base + int i0 < base + int i1 then Inl AssertFailed
      else if row_offset s = 0 \<and> \<not> m < length (matrices computation) then Inl UndefinedBehaviour
      else Inr (t\<lparr>variable_ranges := (variable_ranges t)[i := (base + int i0, base + int i1)],
                 full_column_range := (full_column_range t)
                   [i := (row_offset s = 0 \<and> num_rows s = m_num_rows (matrices computation ! m))]\<rparr>))"
    unfolding range_body_def Let_def defs by (rule refl)
  from assms[unfolded rb] have
    c: "in_range (matrix_index s) (length (split_points t))" "i0 \<noteq> length split"
       "split ! i0 = col_offset s" "i1 \<noteq> length split" "split ! i1 = int32_add (col_offset s) (num_cols s)"
       "base + int i0 < base + int i1"
    and t': "t' = t\<lparr>variable_ranges := (variable_ranges t)[i := (base + int i0, base + int i1)],
                 full_column_range := (full_column_range t)
                   [i := (row_offset s = 0 \<and> num_rows s = m_num_rows (matrices computation ! m))]\<rparr>"
    by (simp_all split: if_splits)
  have "i1 \<le> length split"
  proof -
    have "i0 \<le> length split" using lower_bound_bounds[of 0 split "length split" "col_offset s"]
      by (simp add: i0_def)
    with lower_bound_bounds[of i0 split "length split - i0" "int32_add (col_offset s) (num_cols s)"]
    show ?thesis by (simp add: i1_def)
  qed
  from c(1) have "m < length (split_points t)"
    by (auto simp: in_range_def m_def)
  then show ?thesis
    unfolding Let_def defs using c t' \<open>i1 \<le> length split\<close>
    by (simp add: in_range_def)
qed


lemma view_aligned_cong:
  "split_points a = split_points b \<Longrightarrow>
   matrix_to_variable_index a = matrix_to_variable_index b \<Longrightarrow>
   variable_ranges a ! s = variable_ranges b ! s \<Longrightarrow>
   view_aligned c a s = view_aligned c b s"
  by (simp add: view_aligned_def)

lemma range_body_loop:
  assumes "for_loop [1..<k] (range_body computation) w = Inr v2"
    and "length (variable_ranges w) = k"
  shows "split_points v2 = split_points w \<and>
         matrix_to_variable_index v2 = matrix_to_variable_index w \<and>
         length (variable_ranges v2) = k \<and>
         (\<forall>s\<in>set [1..<k]. view_aligned computation v2 s)"
proof (rule for_loop_rule[OF assms(1),
        where P = "\<lambda>ds t. split_points t = split_points w \<and>
         matrix_to_variable_index t = matrix_to_variable_index w \<and>
         length (variable_ranges t) = k \<and>
         (\<forall>s\<in>set ds. view_aligned computation t s)"])
  show "split_points w = split_points w \<and>
    matrix_to_variable_index w = matrix_to_variable_index w \<and>
    length (variable_ranges w) = k \<and> (\<forall>s\<in>set []. view_aligned computation w s)"
    using assms(2) by simp
next
  fix ds i rest t t'
  assume sp: "[1..<k] = ds @ i # rest"
    and inv: "split_points t = split_points w \<and>
         matrix_to_variable_index t = matrix_to_variable_index w \<and>
         length (variable_ranges t) = k \<and>
         (\<forall>s\<in>set ds. view_aligned computation t s)"
    and body: "range_body computation i t = Inr t'"
  from upt_split_less[OF sp] have lt: "\<forall>m\<in>set ds. m < i" and i: "i < k" by auto
  note rb = range_body_Inr[OF body]
  from rb have same: "split_points t' = split_points t"
    "matrix_to_variable_index t' = matrix_to_variable_index t"
    "length (variable_ranges t') = length (variable_ranges t)"
    and other: "\<And>j. j \<noteq> i \<Longrightarrow> variable_ranges t' ! j = variable_ranges t ! j"
    by auto
  have new: "view_aligned computation t' i"
    using rb i inv unfolding view_aligned_def same by (simp add: Let_def)
  have old: "view_aligned computation t' s" if "s \<in> set ds" for s
  proof -
    from that lt have "s \<noteq> i" by auto
    from other[OF this] have "view_aligned computation t' s = view_aligned computation t s"
      by (intro view_aligned_cong) (simp_all add: same)
    with inv that show ?thesis by simp
  qed
  show "split_points t' = split_points w \<and>
         matrix_to_variable_index t' = matrix_to_variable_index w \<and>
         length (variable_ranges t') = k \<and>
         (\<forall>s\<in>set (ds @ [i]). view_aligned computation t' s)"
    using same inv new old by simp
qed

lemma ComputeVariableRanges_Inr:
  assumes "ComputeVariableRanges computation v1 = Inr v2"
  shows "split_points v2 = split_points v1 \<and>
         matrix_to_variable_index v2 = matrix_to_variable_index v1 \<and>
         length (variable_ranges v2) = length (submatrices computation) \<and>
         (\<forall>s\<in>set [1..<length (submatrices computation)]. view_aligned computation v2 s)"
proof -
  let ?k = "length (submatrices computation)"
  let ?w = "v1\<lparr>variable_ranges := (resize ?k (0, 0) (variable_ranges v1))[0 := (0, 0)],
                 full_column_range := resize ?k False (full_column_range v1)\<rparr>"
  from assms have l: "for_loop [1..<?k] (range_body computation) ?w = Inr v2"
    by (simp add: ComputeVariableRanges_def Let_def split: if_splits)
  have "length (variable_ranges ?w) = ?k" by (simp add: resize_length)
  from range_body_loop[OF l this] show ?thesis by simp
qed

lemma lower_bound_hits:
  assumes "sorted xs" and "first \<le> j" and "j < length xs" and "xs ! j = x"
    and "first \<le> length xs"
  shows "lower_bound xs first (length xs - first) x < length xs \<and>
         xs ! lower_bound xs first (length xs - first) x = x \<and>
         first \<le> lower_bound xs first (length xs - first) x"
proof -
  let ?r = "lower_bound xs first (length xs - first) x"
  have len: "first + (length xs - first) = length xs" using assms(5) by simp
  note s = lower_bound_sorted[OF assms(1), of first "length xs - first" x, unfolded len, OF le_refl]
  note b = lower_bound_bounds[of first xs "length xs - first" x, unfolded len]
  have rj: "?r \<le> j"
  proof (rule ccontr)
    assume "\<not> ?r \<le> j"
    then have "j < ?r" by simp
    with s assms(2) have "xs ! j < x" by blast
    with assms(4) show False by simp
  qed
  with assms(3) have rl: "?r < length xs" by simp
  from s rl have "x \<le> xs ! ?r" by blast
  moreover from rj assms(1,3) have "xs ! ?r \<le> xs ! j" by (simp add: sorted_iff_nth_mono)
  ultimately have "xs ! ?r = x" using assms(4) by simp
  with rl b show ?thesis by simp
qed

lemma view_points_pushed_mono:
  assumes "view_points_pushed computation sp s"
    and "length sp' = length sp" and "\<forall>m<length sp. set (sp ! m) \<subseteq> set (sp' ! m)"
  shows "view_points_pushed computation sp' s"
proof -
  let ?m = "nat (matrix_index (submatrices computation ! s))"
  from assms(1) have "?m < length sp" by (auto simp: view_points_pushed_def in_range_def)
  with assms(3) have "set (sp ! ?m) \<subseteq> set (sp' ! ?m)" by blast
  with assms(1,2) show ?thesis by (auto simp: view_points_pushed_def)
qed

lemma split_push_loop_points:
  assumes "for_loop [1..<k] (split_push computation) w = Inr v"
  shows "length (split_points v) = length (split_points w) \<and>
         (\<forall>s\<in>set [1..<k]. view_points_pushed computation (split_points v) s)"
proof (rule for_loop_rule[OF assms,
        where P = "\<lambda>ds t. length (split_points t) = length (split_points w) \<and>
                     (\<forall>s\<in>set ds. view_points_pushed computation (split_points t) s)"])
  show "length (split_points w) = length (split_points w) \<and>
        (\<forall>s\<in>set []. view_points_pushed computation (split_points w) s)" by simp
next
  fix ds i rest t t'
  assume inv: "length (split_points t) = length (split_points w) \<and>
                 (\<forall>s\<in>set ds. view_points_pushed computation (split_points t) s)"
    and body: "split_push computation i t = Inr t'"
  let ?info = "submatrices computation ! i"
  let ?m = "nat (matrix_index ?info)"
  from body have r: "in_range (matrix_index ?info) (length (split_points t))"
    and t': "split_points t' = (split_points t)
        [?m := split_points t ! ?m @ [col_offset ?info, int32_add (col_offset ?info) (num_cols ?info)]]"
    by (auto simp: split_push_def Let_def split: if_splits)
  from r have m: "?m < length (split_points t)" by (auto simp: in_range_def)
  have len: "length (split_points t') = length (split_points t)" using t' by simp
  have mono: "\<forall>m<length (split_points t). set (split_points t ! m) \<subseteq> set (split_points t' ! m)"
  proof (intro allI impI)
    fix j assume j: "j < length (split_points t)"
    show "set (split_points t ! j) \<subseteq> set (split_points t' ! j)"
    proof (cases "j = ?m")
      case True
      with j t' show ?thesis by auto
    next
      case False
      with j t' show ?thesis by simp
    qed
  qed
  have new: "view_points_pushed computation (split_points t') i"
    using r m t' by (simp add: view_points_pushed_def)
  have old: "view_points_pushed computation (split_points t') s" if "s \<in> set ds" for s
    using view_points_pushed_mono[OF _ len mono] inv that by blast
  show "length (split_points t') = length (split_points w) \<and>
        (\<forall>s\<in>set (ds @ [i]). view_points_pushed computation (split_points t') s)"
    using len inv new old by simp
qed

lemma map_update_same: "(map f xs)[i := f (xs ! i)] = map f xs"
  by (cases "i < length xs") (simp_all add: list_eq_iff_nth_eq nth_list_update)

lemma split_sort_loop_sets:
  assumes "for_loop is split_sort w = Inr v"
  shows "map set (split_points v) = map set (split_points w)"
proof (rule for_loop_preserves[OF assms])
  fix i t t'
  assume "split_sort i t = Inr t'"
  then have "split_points t' = (split_points t)[i := SortAndUniq (split_points t ! i)]"
    by (auto simp: split_sort_def Let_def split: if_splits)
  then show "map set (split_points t') = map set (split_points t)"
    by (simp add: map_update SortAndUniq_set map_update_same)
qed

lemma ComputeSplitPoints_points:
  assumes "ComputeSplitPoints computation v0 = Inr v1"
  shows "\<forall>s\<in>set [1..<length (submatrices computation)].
           view_points_pushed computation (split_points v1) s"
proof -
  let ?n = "length (matrices computation)"
  let ?k = "length (submatrices computation)"
  let ?w1 = "v0\<lparr>split_points := resize ?n [] (split_points v0)\<rparr>"
  from assms obtain w2 w3 w4 where
    l1: "for_loop [1..<?k] (split_push computation) ?w1 = Inr w2" and
    l2: "for_loop [1..<?n] split_sort w2 = Inr w3" and
    l3: "for_loop [1..<?n] split_count
          (w3\<lparr>matrix_to_variable_index :=
             (resize (?n + 1) 0 (matrix_to_variable_index w3))[0 := 0, 1 := 0]\<rparr>) = Inr w4" and
    v1: "v1 = w4\<lparr>num_variables := last (matrix_to_variable_index w4)\<rparr>"
    by (auto simp: ComputeSplitPoints_def Let_def and_then_Inr split: if_splits)
  note p = split_push_loop_points[OF l1]
  have s3: "map set (split_points w3) = map set (split_points w2)"
    by (rule split_sort_loop_sets[OF l2])
  then have len3: "length (split_points w3) = length (split_points w2)"
    by (metis length_map)
  have "split_points w4 = split_points (w3\<lparr>matrix_to_variable_index :=
             (resize (?n + 1) 0 (matrix_to_variable_index w3))[0 := 0, 1 := 0]\<rparr>)"
    by (rule for_loop_preserves[OF l3]) (auto simp: split_count_def Let_def split: if_splits)
  then have sp1: "split_points v1 = split_points w3" using v1 by simp
  have sub: "\<forall>m<length (split_points w2). set (split_points w2 ! m) \<subseteq> set (split_points w3 ! m)"
  proof (intro allI impI)
    fix m assume m: "m < length (split_points w2)"
    have "set (split_points w3 ! m) = map set (split_points w3) ! m" using m len3 by simp
    also have "\<dots> = set (split_points w2 ! m)" using m s3 by simp
    finally show "set (split_points w2 ! m) \<subseteq> set (split_points w3 ! m)" by simp
  qed
  show ?thesis
    unfolding sp1
    using view_points_pushed_mono[OF _ len3 sub] p by blast
qed

lemma view_searches_hit:
  assumes "ComputeSplitPoints computation v0 = Inr v1"
    and "1 \<le> s" and "s < length (submatrices computation)"
    and "1 \<le> matrix_index (submatrices computation ! s)"
  shows "let info = submatrices computation ! s;
             split = split_points v1 ! nat (matrix_index info);
             i0 = lower_bound split 0 (length split) (col_offset info);
             i1 = lower_bound split i0 (length split - i0) (int32_add (col_offset info) (num_cols info))
         in nat (matrix_index info) < length (matrices computation) \<and>
            i0 < length split \<and> split ! i0 = col_offset info \<and>
            (col_offset info \<le> int32_add (col_offset info) (num_cols info) \<longrightarrow>
               i1 < length split \<and> split ! i1 = int32_add (col_offset info) (num_cols info)) \<and>
            (col_offset info < int32_add (col_offset info) (num_cols info) \<longrightarrow> i0 < i1)"
proof -
  define info where "info = submatrices computation ! s"
  define m where "m = nat (matrix_index info)"
  define split where "split = split_points v1 ! m"
  define i0 where "i0 = lower_bound split 0 (length split) (col_offset info)"
  define i1 where "i1 = lower_bound split i0 (length split - i0) (int32_add (col_offset info) (num_cols info))"
  note sp = ComputeSplitPoints_Inr[OF assms(1)]
  from assms(2,3) have mem: "s \<in> set [1..<length (submatrices computation)]" by simp
  with ComputeSplitPoints_points[OF assms(1)]
  have pp: "view_points_pushed computation (split_points v1) s" by blast
  from pp sp have mn: "m < length (matrices computation)"
    by (auto simp: view_points_pushed_def in_range_def m_def info_def)
  from assms(4) have "1 \<le> m" by (simp add: m_def info_def)
  with mn sp have "good_split split" by (simp add: split_def)
  then have srt: "sorted split" by (simp add: good_split_def)
  from pp have a: "col_offset info \<in> set split"
    and b: "int32_add (col_offset info) (num_cols info) \<in> set split"
    by (simp_all add: view_points_pushed_def split_def m_def info_def)
  from a obtain j where j: "j < length split" "split ! j = col_offset info"
    by (auto simp: in_set_conv_nth)
  from lower_bound_hits[OF srt _ j(1) j(2), of 0]
  have h0: "i0 < length split" "split ! i0 = col_offset info" by (simp_all add: i0_def)
  have h1: "i1 < length split \<and> split ! i1 = int32_add (col_offset info) (num_cols info) \<and> i0 \<le> i1"
    if nn: "col_offset info \<le> int32_add (col_offset info) (num_cols info)"
  proof -
    from b obtain j' where j': "j' < length split" "split ! j' = int32_add (col_offset info) (num_cols info)"
      by (auto simp: in_set_conv_nth)
    have "\<exists>q. i0 \<le> q \<and> q < length split \<and> split ! q = int32_add (col_offset info) (num_cols info)"
    proof (cases "i0 \<le> j'")
      case True
      with j' show ?thesis by blast
    next
      case False
      then have "j' \<le> i0" by simp
      with srt h0(1) have "split ! j' \<le> split ! i0" by (simp add: sorted_iff_nth_mono)
      with j'(2) h0(2) nn have "split ! i0 = int32_add (col_offset info) (num_cols info)" by simp
      with h0(1) show ?thesis by blast
    qed
    then obtain q where q: "i0 \<le> q" "q < length split"
      "split ! q = int32_add (col_offset info) (num_cols info)" by blast
    from h0(1) have "i0 \<le> length split" by simp
    from lower_bound_hits[OF srt q(1) q(2) q(3) this] show ?thesis by (simp add: i1_def)
  qed
  have h2: "i0 < i1" if pos: "col_offset info < int32_add (col_offset info) (num_cols info)"
  proof -
    from pos h1 have e: "split ! i1 = int32_add (col_offset info) (num_cols info)" "i0 \<le> i1" by simp_all
    with h0(2) pos have "split ! i0 \<noteq> split ! i1" by simp
    then have "i0 \<noteq> i1" by auto
    with e(2) show ?thesis by simp
  qed
  show ?thesis
    unfolding Let_def info_def[symmetric] m_def[symmetric] split_def[symmetric]
      i0_def[symmetric] i1_def[symmetric]
    using mn h0 h1 h2 by simp
qed

lemma range_body_succeeds:
  assumes "let info = submatrices computation ! i;
               split = split_points t ! nat (matrix_index info);
               i0 = lower_bound split 0 (length split) (col_offset info);
               i1 = lower_bound split i0 (length split - i0) (int32_add (col_offset info) (num_cols info))
           in 0 \<le> matrix_index info \<and>
              nat (matrix_index info) < length (split_points t) \<and>
              nat (matrix_index info) < length (matrix_to_variable_index t) \<and>
              nat (matrix_index info) < length (matrices computation) \<and>
              i0 < length split \<and> split ! i0 = col_offset info \<and>
              i1 < length split \<and> split ! i1 = int32_add (col_offset info) (num_cols info) \<and> i0 < i1"
  shows "\<exists>t'. range_body computation i t = Inr t' \<and> split_points t' = split_points t \<and>
              matrix_to_variable_index t' = matrix_to_variable_index t"
proof -
  define s where "s = submatrices computation ! i"
  define m where "m = nat (matrix_index s)"
  define split where "split = split_points t ! m"
  define base where "base = matrix_to_variable_index t ! m"
  define i0 where "i0 = lower_bound split 0 (length split) (col_offset s)"
  define i1 where "i1 = lower_bound split i0 (length split - i0) (int32_add (col_offset s) (num_cols s))"
  note defs = s_def[symmetric] m_def[symmetric] split_def[symmetric] base_def[symmetric]
    i0_def[symmetric] i1_def[symmetric]
  have rb: "range_body computation i t =
     (if \<not> in_range (matrix_index s) (length (split_points t)) then Inl UndefinedBehaviour
      else if i0 = length split then Inl UndefinedBehaviour
      else if split ! i0 \<noteq> col_offset s then Inl AssertFailed
      else if i1 = length split then Inl UndefinedBehaviour
      else if split ! i1 \<noteq> int32_add (col_offset s) (num_cols s) then Inl AssertFailed
      else if \<not> m < length (matrix_to_variable_index t) then Inl UndefinedBehaviour
      else if \<not> base + int i0 < base + int i1 then Inl AssertFailed
      else if row_offset s = 0 \<and> \<not> m < length (matrices computation) then Inl UndefinedBehaviour
      else Inr (t\<lparr>variable_ranges := (variable_ranges t)[i := (base + int i0, base + int i1)],
                 full_column_range := (full_column_range t)
                   [i := (row_offset s = 0 \<and> num_rows s = m_num_rows (matrices computation ! m))]\<rparr>))"
    unfolding range_body_def Let_def defs by (rule refl)
  from assms[unfolded Let_def defs] have
    c: "0 \<le> matrix_index s" "m < length (split_points t)"
       "m < length (matrix_to_variable_index t)" "m < length (matrices computation)"
       "i0 < length split" "split ! i0 = col_offset s"
       "i1 < length split" "split ! i1 = int32_add (col_offset s) (num_cols s)" "i0 < i1"
    by simp_all
  from c(1,2) have r: "in_range (matrix_index s) (length (split_points t))"
    by (simp add: in_range_def m_def)
  show ?thesis
    unfolding rb using r c by simp
qed

lemma ComputeVariableRanges_succeeds:
  assumes "ComputeSplitPoints computation v0 = Inr v1"
    and "\<forall>s. 1 \<le> s \<and> s < length (submatrices computation) \<longrightarrow>
           1 \<le> matrix_index (submatrices computation ! s) \<and>
           col_offset (submatrices computation ! s)
             < int32_add (col_offset (submatrices computation ! s))
                 (num_cols (submatrices computation ! s))"
  shows "\<exists>v2. ComputeVariableRanges computation v1 = Inr v2"
proof -
  let ?k = "length (submatrices computation)"
  let ?w = "v1\<lparr>variable_ranges := (resize ?k (0, 0) (variable_ranges v1))[0 := (0, 0)],
                 full_column_range := resize ?k False (full_column_range v1)\<rparr>"
  let ?I = "\<lambda>t. split_points t = split_points v1 \<and>
                matrix_to_variable_index t = matrix_to_variable_index v1"
  note sp = ComputeSplitPoints_Inr[OF assms(1)]
  from assms(1) have k0: "?k \<noteq> 0"
    by (auto simp: ComputeSplitPoints_def Let_def split: if_splits)
  have step: "\<exists>t'. range_body computation i t = Inr t' \<and> ?I t'"
    if i: "i \<in> set [1..<?k]" and inv: "?I t" for i t
  proof -
    from i have i1: "1 \<le> i" "i < ?k" by simp_all
    with assms(2) have wf: "1 \<le> matrix_index (submatrices computation ! i)"
      "col_offset (submatrices computation ! i)
         < int32_add (col_offset (submatrices computation ! i))
             (num_cols (submatrices computation ! i))" by simp_all
    note h = view_searches_hit[OF assms(1) i1 wf(1), unfolded Let_def]
    have "\<exists>t'. range_body computation i t = Inr t' \<and> split_points t' = split_points t \<and>
              matrix_to_variable_index t' = matrix_to_variable_index t"
      by (rule range_body_succeeds) (use h wf inv sp in \<open>simp add: Let_def\<close>)
    with inv show ?thesis by auto
  qed
  have "\<exists>v2. for_loop [1..<?k] (range_body computation) ?w = Inr v2 \<and> ?I v2"
    by (rule for_loop_total[where I = ?I]) (use step in simp_all)
  with k0 show ?thesis
    by (auto simp: ComputeVariableRanges_def Let_def)
qed

lemma range_body_fails:
  assumes "let info = submatrices computation ! i;
               split = split_points t ! nat (matrix_index info);
               i0 = lower_bound split 0 (length split) (col_offset info)
           in 0 \<le> matrix_index info \<and>
              nat (matrix_index info) < length (split_points t) \<and>
              nat (matrix_index info) < length (matrix_to_variable_index t) \<and>
              sorted split \<and>
              i0 < length split \<and> split ! i0 = col_offset info \<and>
              \<not> col_offset info < int32_add (col_offset info) (num_cols info)"
  shows "range_body computation i t = Inl AssertFailed"
proof -
  define s where "s = submatrices computation ! i"
  define m where "m = nat (matrix_index s)"
  define split where "split = split_points t ! m"
  define base where "base = matrix_to_variable_index t ! m"
  define i0 where "i0 = lower_bound split 0 (length split) (col_offset s)"
  define i1 where "i1 = lower_bound split i0 (length split - i0) (int32_add (col_offset s) (num_cols s))"
  note defs = s_def[symmetric] m_def[symmetric] split_def[symmetric] base_def[symmetric]
    i0_def[symmetric] i1_def[symmetric]
  have rb: "range_body computation i t =
     (if \<not> in_range (matrix_index s) (length (split_points t)) then Inl UndefinedBehaviour
      else if i0 = length split then Inl UndefinedBehaviour
      else if split ! i0 \<noteq> col_offset s then Inl AssertFailed
      else if i1 = length split then Inl UndefinedBehaviour
      else if split ! i1 \<noteq> int32_add (col_offset s) (num_cols s) then Inl AssertFailed
      else if \<not> m < length (matrix_to_variable_index t) then Inl UndefinedBehaviour
      else if \<not> base + int i0 < base + int i1 then Inl AssertFailed
      else if row_offset s = 0 \<and> \<not> m < length (matrices computation) then Inl UndefinedBehaviour
      else Inr (t\<lparr>variable_ranges := (variable_ranges t)[i := (base + int i0, base + int i1)],
                 full_column_range := (full_column_range t)
                   [i := (row_offset s = 0 \<and> num_rows s = m_num_rows (matrices computation ! m))]\<rparr>))"
    unfolding range_body_def Let_def defs by (rule refl)
  from assms[unfolded Let_def defs] have
    c: "0 \<le> matrix_index s" "m < length (split_points t)"
       "m < length (matrix_to_variable_index t)" "sorted split"
       "i0 < length split" "split ! i0 = col_offset s"
       "\<not> col_offset s < int32_add (col_offset s) (num_cols s)"
    by simp_all
  from c(1,2) have r: "in_range (matrix_index s) (length (split_points t))"
    by (simp add: in_range_def m_def)
  from c(5) have len: "i0 + (length split - i0) = length split" by simp
  note srt = lower_bound_sorted[OF c(4), of i0 "length split - i0" "int32_add (col_offset s) (num_cols s)",
      unfolded len, OF le_refl, folded i1_def]
  note bnd = lower_bound_bounds[of i0 split "length split - i0" "int32_add (col_offset s) (num_cols s)",
      unfolded len, folded i1_def]
  have "\<not> i0 < i1"
  proof
    assume "i0 < i1"
    with srt have "split ! i0 < int32_add (col_offset s) (num_cols s)" by blast
    with c(6,7) show False by simp
  qed
  with bnd have e: "i1 = i0" by simp
  show ?thesis
    unfolding rb using r c e by simp
qed

lemma ComputeVariableRanges_cases:
  assumes "ComputeSplitPoints computation v0 = Inr v1"
    and "\<forall>s. 1 \<le> s \<and> s < length (submatrices computation) \<longrightarrow>
           1 \<le> matrix_index (submatrices computation ! s)"
  shows "(\<exists>v2. ComputeVariableRanges computation v1 = Inr v2) \<or>
         ComputeVariableRanges computation v1 = Inl AssertFailed"
proof -
  let ?k = "length (submatrices computation)"
  let ?w = "v1\<lparr>variable_ranges := (resize ?k (0, 0) (variable_ranges v1))[0 := (0, 0)],
                 full_column_range := resize ?k False (full_column_range v1)\<rparr>"
  let ?I = "\<lambda>t. split_points t = split_points v1 \<and>
                matrix_to_variable_index t = matrix_to_variable_index v1"
  note sp = ComputeSplitPoints_Inr[OF assms(1)]
  from assms(1) have k0: "?k \<noteq> 0"
    by (auto simp: ComputeSplitPoints_def Let_def split: if_splits)
  have step: "(\<exists>t'. range_body computation i t = Inr t' \<and> ?I t') \<or>
              range_body computation i t = Inl AssertFailed"
    if i: "i \<in> set [1..<?k]" and inv: "?I t" for i t
  proof -
    from i have i1: "1 \<le> i" "i < ?k" by simp_all
    with assms(2) have wf: "1 \<le> matrix_index (submatrices computation ! i)" by simp
    note h = view_searches_hit[OF assms(1) i1 wf, unfolded Let_def]
    show ?thesis
    proof (cases "col_offset (submatrices computation ! i)
         < int32_add (col_offset (submatrices computation ! i))
             (num_cols (submatrices computation ! i))")
      case True
      have "\<exists>t'. range_body computation i t = Inr t' \<and> split_points t' = split_points t \<and>
              matrix_to_variable_index t' = matrix_to_variable_index t"
        by (rule range_body_succeeds) (use h wf True inv sp in \<open>simp add: Let_def\<close>)
      with inv show ?thesis by auto
    next
      case False
      define m where "m = nat (matrix_index (submatrices computation ! i))"
      from h have mn: "m < length (matrices computation)" by (simp add: m_def)
      from wf have "1 \<le> m" by (simp add: m_def)
      with mn sp have "good_split (split_points v1 ! m)" by simp
      then have srt: "sorted (split_points v1 ! m)" by (simp add: good_split_def)
      have "range_body computation i t = Inl AssertFailed"
        by (rule range_body_fails)
           (use h wf False inv sp srt mn in \<open>simp add: Let_def m_def\<close>)
      then show ?thesis by simp
    qed
  qed
  have "(\<exists>v2. for_loop [1..<?k] (range_body computation) ?w = Inr v2 \<and> ?I v2) \<or>
        for_loop [1..<?k] (range_body computation) ?w = Inl AssertFailed"
    by (rule for_loop_total_or[where I = ?I]) (use step in simp_all)
  with k0 show ?thesis
    by (auto simp: ComputeVariableRanges_def Let_def)
qed

lemma ComputeVariableRanges_widths:
  assumes "ComputeSplitPoints computation v0 = Inr v1"
    and "ComputeVariableRanges computation v1 = Inr v2"
    and "1 \<le> s" and "s < length (submatrices computation)"
    and "1 \<le> matrix_index (submatrices computation ! s)"
  shows "col_offset (submatrices computation ! s)
           < int32_add (col_offset (submatrices computation ! s))
               (num_cols (submatrices computation ! s))"
proof -
  define info where "info = submatrices computation ! s"
  define m where "m = nat (matrix_index info)"
  define split where "split = split_points v1 ! m"
  define i0 where "i0 = lower_bound split 0 (length split) (col_offset info)"
  define i1 where "i1 = lower_bound split i0 (length split - i0) (int32_add (col_offset info) (num_cols info))"
  note sp = ComputeSplitPoints_Inr[OF assms(1)]
  note vr = ComputeVariableRanges_Inr[OF assms(2)]
  from vr assms(3,4) have "view_aligned computation v2 s" by simp
  with vr have al: "m < length (split_points v1)" "i0 < i1" "i1 < length split"
    "split ! i0 = col_offset info" "split ! i1 = int32_add (col_offset info) (num_cols info)"
    unfolding view_aligned_def Let_def info_def m_def split_def i0_def i1_def by simp_all
  from assms(5) have "1 \<le> m" by (simp add: m_def info_def)
  with al(1) sp have "good_split split" by (simp add: split_def)
  then have g: "sorted split" "distinct split" by (simp_all add: good_split_def)
  from g(1) al(2,3) have "split ! i0 \<le> split ! i1" by (simp add: sorted_iff_nth_mono)
  moreover from g(2) al(2,3) have "split ! i0 \<noteq> split ! i1"
    by (simp add: nth_eq_iff_index_eq)
  ultimately show ?thesis using al(4,5) by (simp add: info_def)
qed

lemma matrix_points_set:
  "set (matrix_points computation m) =
     (\<Union>s\<in>{s\<in>set [1..<length (submatrices computation)].
              matrix_index (submatrices computation ! s) = int m}.
        set (view_points (submatrices computation ! s)))"
  by (auto simp: matrix_points_def)

lemma SortAndUniq_length: "length (SortAndUniq xs) = length (remdups xs)"
proof -
  have "length (SortAndUniq xs) = card (set (SortAndUniq xs))"
    by (simp add: distinct_card SortAndUniq_distinct)
  then show ?thesis by (simp add: SortAndUniq_set length_remdups_card_conv)
qed

lemma split_push_loop_sets:
  assumes "for_loop [1..<k] (split_push computation) w = Inr v"
  shows "length (split_points v) = length (split_points w) \<and>
         (\<forall>m<length (split_points w). set (split_points v ! m) =
            set (split_points w ! m) \<union>
            (\<Union>s\<in>{s\<in>set [1..<k]. matrix_index (submatrices computation ! s) = int m}.
               set (view_points (submatrices computation ! s))))"
proof (rule for_loop_rule[OF assms,
        where P = "\<lambda>ds t. length (split_points t) = length (split_points w) \<and>
         (\<forall>m<length (split_points w). set (split_points t ! m) =
            set (split_points w ! m) \<union>
            (\<Union>s\<in>{s\<in>set ds. matrix_index (submatrices computation ! s) = int m}.
               set (view_points (submatrices computation ! s))))"])
  show "length (split_points w) = length (split_points w) \<and>
         (\<forall>m<length (split_points w). set (split_points w ! m) =
            set (split_points w ! m) \<union>
            (\<Union>s\<in>{s\<in>set []. matrix_index (submatrices computation ! s) = int m}.
               set (view_points (submatrices computation ! s))))" by simp
next
  fix ds i rest t t'
  assume inv: "length (split_points t) = length (split_points w) \<and>
         (\<forall>m<length (split_points w). set (split_points t ! m) =
            set (split_points w ! m) \<union>
            (\<Union>s\<in>{s\<in>set ds. matrix_index (submatrices computation ! s) = int m}.
               set (view_points (submatrices computation ! s))))"
    and body: "split_push computation i t = Inr t'"
  let ?info = "submatrices computation ! i"
  let ?m = "nat (matrix_index ?info)"
  from body have r: "in_range (matrix_index ?info) (length (split_points t))"
    and t': "split_points t' = (split_points t)[?m := split_points t ! ?m @ view_points ?info]"
    by (auto simp: split_push_def Let_def view_points_def split: if_splits)
  from r have m: "?m < length (split_points t)" and nn: "0 \<le> matrix_index ?info"
    by (auto simp: in_range_def)
  have len: "length (split_points t') = length (split_points w)" using t' inv by simp
  have "set (split_points t' ! j) =
            set (split_points w ! j) \<union>
            (\<Union>s\<in>{s\<in>set (ds @ [i]). matrix_index (submatrices computation ! s) = int j}.
               set (view_points (submatrices computation ! s)))"
    if j: "j < length (split_points w)" for j
  proof (cases "j = ?m")
    case True
    then have mi: "matrix_index ?info = int j" using nn by simp
    have "set (split_points t' ! j) = set (split_points t ! j) \<union> set (view_points ?info)"
      using t' True m by simp
    also have "set (split_points t ! j) = set (split_points w ! j) \<union>
            (\<Union>s\<in>{s\<in>set ds. matrix_index (submatrices computation ! s) = int j}.
               set (view_points (submatrices computation ! s)))"
      using inv j by blast
    finally show ?thesis using mi by auto
  next
    case False
    then have mi: "matrix_index ?info \<noteq> int j" by auto
    have "set (split_points t' ! j) = set (split_points t ! j)"
      using t' False by simp
    also have "\<dots> = set (split_points w ! j) \<union>
            (\<Union>s\<in>{s\<in>set ds. matrix_index (submatrices computation ! s) = int j}.
               set (view_points (submatrices computation ! s)))"
      using inv j by blast
    finally show ?thesis using mi by auto
  qed
  with len show "length (split_points t') = length (split_points w) \<and>
         (\<forall>m<length (split_points w). set (split_points t' ! m) =
            set (split_points w ! m) \<union>
            (\<Union>s\<in>{s\<in>set (ds @ [i]). matrix_index (submatrices computation ! s) = int m}.
               set (view_points (submatrices computation ! s))))" by blast
qed

lemma resize_empty: "resize n d [] = replicate n d"
  by (simp add: resize_def)

lemma ComputeSplitPoints_sets:
  assumes "ComputeSplitPoints computation v0 = Inr v1" and "split_points v0 = []"
  shows "\<forall>m<length (matrices computation).
           set (split_points v1 ! m) = set (matrix_points computation m)"
proof -
  let ?n = "length (matrices computation)"
  let ?k = "length (submatrices computation)"
  let ?w1 = "v0\<lparr>split_points := resize ?n [] (split_points v0)\<rparr>"
  from assms(1) obtain w2 w3 w4 where
    l1: "for_loop [1..<?k] (split_push computation) ?w1 = Inr w2" and
    l2: "for_loop [1..<?n] split_sort w2 = Inr w3" and
    l3: "for_loop [1..<?n] split_count
          (w3\<lparr>matrix_to_variable_index :=
             (resize (?n + 1) 0 (matrix_to_variable_index w3))[0 := 0, 1 := 0]\<rparr>) = Inr w4" and
    v1: "v1 = w4\<lparr>num_variables := last (matrix_to_variable_index w4)\<rparr>"
    by (auto simp: ComputeSplitPoints_def Let_def and_then_Inr split: if_splits)
  have w1: "split_points ?w1 = replicate ?n []" using assms(2) by (simp add: resize_empty)
  note p = split_push_loop_sets[OF l1, unfolded w1]
  from p have len2: "length (split_points w2) = ?n" by simp
  have s2: "set (split_points w2 ! m) = set (matrix_points computation m)" if "m < ?n" for m
    using p that by (simp add: matrix_points_set)
  have s3: "map set (split_points w3) = map set (split_points w2)"
    by (rule split_sort_loop_sets[OF l2])
  then have len3: "length (split_points w3) = length (split_points w2)"
    by (metis length_map)
  have "split_points w4 = split_points (w3\<lparr>matrix_to_variable_index :=
             (resize (?n + 1) 0 (matrix_to_variable_index w3))[0 := 0, 1 := 0]\<rparr>)"
    by (rule for_loop_preserves[OF l3]) (auto simp: split_count_def Let_def split: if_splits)
  then have sp1: "split_points v1 = split_points w3" using v1 by simp
  have "set (split_points v1 ! m) = set (matrix_points computation m)" if m: "m < ?n" for m
  proof -
    have "set (split_points w3 ! m) = map set (split_points w3) ! m" using m len2 len3 by simp
    also have "\<dots> = set (split_points w2 ! m)" using m s3 len2 by simp
    finally show ?thesis using s2[OF m] sp1 by simp
  qed
  then show ?thesis by blast
qed

lemma ComputeSplitPoints_defined:
  assumes "ComputeSplitPoints computation v0 = Inr v1" and "split_points v0 = []"
  shows "partition_defined computation"
proof -
  let ?n = "length (matrices computation)"
  let ?k = "length (submatrices computation)"
  note sp = ComputeSplitPoints_Inr[OF assms(1)]
  note pts = ComputeSplitPoints_points[OF assms(1)]
  note sets = ComputeSplitPoints_sets[OF assms]
  from assms(1) have k: "?k \<noteq> 0" and z: "num_rows (submatrices computation ! 0) = 0"
    by (auto simp: ComputeSplitPoints_def Let_def split: if_splits)
  have r: "in_range (matrix_index (submatrices computation ! s)) ?n" if "s \<in> set [1..<?k]" for s
    using pts that sp by (simp add: view_points_pushed_def)
  have c: "2 \<le> length (remdups (matrix_points computation m))" if m: "m \<in> set [1..<?n]" for m
  proof -
    from sp m have g: "good_split (split_points v1 ! m)" by blast
    from m sets have "set (matrix_points computation m) = set (split_points v1 ! m)" by simp
    then have "length (remdups (matrix_points computation m)) = card (set (split_points v1 ! m))"
      by (simp add: length_remdups_card_conv)
    also have "\<dots> = length (split_points v1 ! m)"
      using g by (simp add: good_split_def distinct_card)
    finally show ?thesis using g by (simp add: good_split_def)
  qed
  from k have "1 \<le> ?k" by (cases "submatrices computation") simp_all
  with sp z r c show ?thesis unfolding partition_defined_def by blast
qed

lemma ComputeSplitPoints_returns:
  assumes "partition_defined computation" and "split_points v0 = []"
  shows "\<exists>v1. ComputeSplitPoints computation v0 = Inr v1"
proof -
  let ?n = "length (matrices computation)"
  let ?k = "length (submatrices computation)"
  let ?w1 = "v0\<lparr>split_points := resize ?n [] (split_points v0)\<rparr>"
  from assms(1) have k: "?k \<noteq> 0" and n: "?n \<noteq> 0"
    and z: "num_rows (submatrices computation ! 0) = 0"
    and r: "\<forall>s\<in>set [1..<?k]. in_range (matrix_index (submatrices computation ! s)) ?n"
    and c: "\<forall>m\<in>set [1..<?n]. 2 \<le> length (remdups (matrix_points computation m))"
    unfolding partition_defined_def by auto
  have w1: "split_points ?w1 = replicate ?n []" using assms(2) by (simp add: resize_empty)
  have "\<exists>w2. for_loop [1..<?k] (split_push computation) ?w1 = Inr w2 \<and>
           length (split_points w2) = ?n"
  proof (rule for_loop_total[where I = "\<lambda>t. length (split_points t) = ?n"])
    show "length (split_points ?w1) = ?n" by (simp add: resize_length)
  next
    fix i and t :: ComputationVariables
    assume "i \<in> set [1..<?k]" and "length (split_points t) = ?n"
    with r show "\<exists>t'. split_push computation i t = Inr t' \<and> length (split_points t') = ?n"
      by (simp add: split_push_def Let_def)
  qed
  then obtain w2 where l1: "for_loop [1..<?k] (split_push computation) ?w1 = Inr w2"
    and len2: "length (split_points w2) = ?n" by blast
  note p = split_push_loop_sets[OF l1, unfolded w1]
  have s2: "set (split_points w2 ! m) = set (matrix_points computation m)" if "m < ?n" for m
    using p that by (simp add: matrix_points_set)
  have "\<exists>w3. for_loop [1..<?n] split_sort w2 = Inr w3 \<and>
           map set (split_points w3) = map set (split_points w2)"
  proof (rule for_loop_total[where I = "\<lambda>t. map set (split_points t) = map set (split_points w2)"])
    show "map set (split_points w2) = map set (split_points w2)" by simp
  next
    fix i and t :: ComputationVariables
    assume i: "i \<in> set [1..<?n]" and inv: "map set (split_points t) = map set (split_points w2)"
    from inv have len: "length (split_points t) = ?n" using len2 by (metis length_map)
    have "set (split_points t ! i) = map set (split_points t) ! i" using i len by simp
    also have "\<dots> = set (split_points w2 ! i)" using inv i len2 by simp
    also have "\<dots> = set (matrix_points computation i)" using s2 i by simp
    finally have "length (SortAndUniq (split_points t ! i)) =
        length (remdups (matrix_points computation i))"
      by (simp add: SortAndUniq_length length_remdups_card_conv)
    with c i have two: "2 \<le> length (SortAndUniq (split_points t ! i))" by simp
    have "map set ((split_points t)[i := SortAndUniq (split_points t ! i)]) = map set (split_points t)"
      by (simp add: map_update SortAndUniq_set map_update_same)
    with two inv
    show "\<exists>t'. split_sort i t = Inr t' \<and> map set (split_points t') = map set (split_points w2)"
      by (simp add: split_sort_def Let_def)
  qed
  then obtain w3 where l2: "for_loop [1..<?n] split_sort w2 = Inr w3" by blast
  from split_sort_loop[OF l2] len2
  have good: "\<forall>m\<in>set [1..<?n]. good_split (split_points w3 ! m)" by simp
  let ?w3 = "w3\<lparr>matrix_to_variable_index :=
             (resize (?n + 1) 0 (matrix_to_variable_index w3))[0 := 0, 1 := 0]\<rparr>"
  have "\<exists>w4. for_loop [1..<?n] split_count ?w3 = Inr w4 \<and> split_points w4 = split_points w3"
  proof (rule for_loop_total[where I = "\<lambda>t. split_points t = split_points w3"])
    show "split_points ?w3 = split_points w3" by simp
  next
    fix i and t :: ComputationVariables
    assume i: "i \<in> set [1..<?n]" and inv: "split_points t = split_points w3"
    with good have "2 \<le> length (split_points t ! i)" by (simp add: good_split_def)
    with inv show "\<exists>t'. split_count i t = Inr t' \<and> split_points t' = split_points w3"
      by (simp add: split_count_def Let_def)
  qed
  then obtain w4 where l3: "for_loop [1..<?n] split_count ?w3 = Inr w4" by blast
  show ?thesis
    unfolding ComputeSplitPoints_def Let_def using k z n l1 l2 l3
    by (simp add: and_then_def)
qed

lemma int32_add_fits:
  "- 2147483648 \<le> a + b \<Longrightarrow> a + b < 2147483648 \<Longrightarrow> int32_add a b = a + b"
  by (simp add: int32_add_def)

lemma positive_width_fits: "end_fits s \<Longrightarrow> positive_width s \<longleftrightarrow> 0 < num_cols s"
  by (simp add: end_fits_def positive_width_def int32_add_fits)

text \<open>
  C1. Called on a fresh object, \<open>ComputeSplitPoints\<close> returns exactly on the programs
  that have a null view and a null matrix, whose other views each name a matrix of the
  program, and whose matrices other than the null one are each given two different
  columns or more by their views; the column end of a view is the \<open>int32\<close> sum of its
  offset and width. When it returns, every matrix but the null one has a boundary list
  that is sorted, free of repetitions, of two points or more, made of the columns of
  its views and of nothing else, and the matrix owns one variable less than it has
  points; and for every view of such a matrix whose column end is not before its
  offset, the two binary searches hit the view's column offset and column end exactly.
  When \<open>ComputeVariableRanges\<close> then returns, this holds of every view but the null
  one, and the range of the view is the pair of hit positions moved by the matrix's
  first variable: it is not empty, and it lies inside the block of variables of the
  matrix. When every view but the null one is a view of a matrix other than the null
  one, \<open>ComputeVariableRanges\<close> either returns or fails an assertion, and it returns
  exactly when the column end of every such view is past its offset: when no column
  end overflows, exactly when every such view has a positive width.
\<close>

theorem region_partition_aligned:
  assumes "split_points vars0 = []"
  shows "((\<exists>vars1. ComputeSplitPoints computation vars0 = Inr vars1) \<longleftrightarrow>
            partition_defined computation) \<and>
         (\<forall>vars1. ComputeSplitPoints computation vars0 = Inr vars1 \<longrightarrow>
         (\<forall>m. 1 \<le> m \<and> m < length (matrices computation) \<longrightarrow>
            sorted (split_points vars1 ! m) \<and> distinct (split_points vars1 ! m) \<and>
            2 \<le> length (split_points vars1 ! m) \<and>
            set (split_points vars1 ! m) = set (matrix_points computation m) \<and>
            matrix_to_variable_index vars1 ! (m + 1) - matrix_to_variable_index vars1 ! m
              = int (length (split_points vars1 ! m)) - 1) \<and>
         (\<forall>s. 1 \<le> s \<and> s < length (submatrices computation) \<and>
              1 \<le> matrix_index (submatrices computation ! s) \<and>
              col_offset (submatrices computation ! s)
                \<le> int32_add (col_offset (submatrices computation ! s))
                    (num_cols (submatrices computation ! s)) \<longrightarrow>
            searches_hit computation vars1 s) \<and>
         (\<forall>vars2. ComputeVariableRanges computation vars1 = Inr vars2 \<longrightarrow>
            (\<forall>s. 1 \<le> s \<and> s < length (submatrices computation) \<longrightarrow>
               searches_hit computation vars1 s \<and>
               view_aligned computation vars2 s \<and>
               split_points vars2 = split_points vars1 \<and>
               fst (variable_ranges vars2 ! s) < snd (variable_ranges vars2 ! s) \<and>
               (1 \<le> matrix_index (submatrices computation ! s) \<longrightarrow>
                  matrix_to_variable_index vars1 ! nat (matrix_index (submatrices computation ! s))
                    \<le> fst (variable_ranges vars2 ! s) \<and>
                  snd (variable_ranges vars2 ! s)
                    \<le> matrix_to_variable_index vars1 ! (nat (matrix_index (submatrices computation ! s)) + 1)))) \<and>
         ((\<forall>s. 1 \<le> s \<and> s < length (submatrices computation) \<longrightarrow>
              1 \<le> matrix_index (submatrices computation ! s)) \<longrightarrow>
            ((\<exists>vars2. ComputeVariableRanges computation vars1 = Inr vars2) \<or>
             ComputeVariableRanges computation vars1 = Inl AssertFailed) \<and>
            ((\<exists>vars2. ComputeVariableRanges computation vars1 = Inr vars2) \<longleftrightarrow>
             (\<forall>s. 1 \<le> s \<and> s < length (submatrices computation) \<longrightarrow>
                positive_width (submatrices computation ! s))) \<and>
            ((\<forall>s. 1 \<le> s \<and> s < length (submatrices computation) \<longrightarrow>
                end_fits (submatrices computation ! s)) \<longrightarrow>
             ((\<exists>vars2. ComputeVariableRanges computation vars1 = Inr vars2) \<longleftrightarrow>
              (\<forall>s. 1 \<le> s \<and> s < length (submatrices computation) \<longrightarrow>
                 0 < num_cols (submatrices computation ! s))))))"
proof -
  have R: "(\<exists>vars1. ComputeSplitPoints computation vars0 = Inr vars1) \<longleftrightarrow>
            partition_defined computation"
    using ComputeSplitPoints_returns[OF _ assms] ComputeSplitPoints_defined[OF _ assms]
    by blast
  have A: "sorted (split_points vars1 ! m) \<and> distinct (split_points vars1 ! m) \<and>
            2 \<le> length (split_points vars1 ! m) \<and>
            set (split_points vars1 ! m) = set (matrix_points computation m) \<and>
            matrix_to_variable_index vars1 ! (m + 1) - matrix_to_variable_index vars1 ! m
              = int (length (split_points vars1 ! m)) - 1"
    if c: "ComputeSplitPoints computation vars0 = Inr vars1"
      and "1 \<le> m \<and> m < length (matrices computation)" for vars1 m
    using ComputeSplitPoints_Inr[OF c] ComputeSplitPoints_sets[OF c assms] that(2)
    by (simp add: good_split_def)
  have H: "searches_hit computation vars1 s"
    if c: "ComputeSplitPoints computation vars0 = Inr vars1"
      and "1 \<le> s \<and> s < length (submatrices computation) \<and>
        1 \<le> matrix_index (submatrices computation ! s) \<and>
        col_offset (submatrices computation ! s)
          \<le> int32_add (col_offset (submatrices computation ! s))
              (num_cols (submatrices computation ! s))" for vars1 s
  proof -
    from that(2) have a: "1 \<le> s" "s < length (submatrices computation)"
      "1 \<le> matrix_index (submatrices computation ! s)" by simp_all
    from view_searches_hit[OF c a] that(2) show ?thesis
      by (simp add: searches_hit_def Let_def)
  qed
  have B: "searches_hit computation vars1 s \<and>
               view_aligned computation vars2 s \<and>
               split_points vars2 = split_points vars1 \<and>
               fst (variable_ranges vars2 ! s) < snd (variable_ranges vars2 ! s) \<and>
               (1 \<le> matrix_index (submatrices computation ! s) \<longrightarrow>
                  matrix_to_variable_index vars1 ! nat (matrix_index (submatrices computation ! s))
                    \<le> fst (variable_ranges vars2 ! s) \<and>
                  snd (variable_ranges vars2 ! s)
                    \<le> matrix_to_variable_index vars1 ! (nat (matrix_index (submatrices computation ! s)) + 1))"
    if c: "ComputeSplitPoints computation vars0 = Inr vars1"
      and r: "ComputeVariableRanges computation vars1 = Inr vars2"
      and s: "1 \<le> s \<and> s < length (submatrices computation)" for vars1 vars2 s
  proof -
    note sp = ComputeSplitPoints_Inr[OF c]
    note vr = ComputeVariableRanges_Inr[OF r]
    from vr s have al: "view_aligned computation vars2 s" by simp
    from al vr have hit: "searches_hit computation vars1 s"
      by (simp add: view_aligned_def searches_hit_def Let_def)
    define m where "m = nat (matrix_index (submatrices computation ! s))"
    from al have "m < length (split_points vars2)"
      unfolding view_aligned_def Let_def m_def by simp
    with vr sp have m: "m < length (matrices computation)" by simp
    from al have rng: "fst (variable_ranges vars2 ! s) < snd (variable_ranges vars2 ! s)"
      and lo: "matrix_to_variable_index vars1 ! m \<le> fst (variable_ranges vars2 ! s)"
      and hi: "snd (variable_ranges vars2 ! s) - matrix_to_variable_index vars1 ! m
                  \<le> int (length (split_points vars1 ! m)) - 1"
      using vr unfolding view_aligned_def Let_def m_def by auto
    have "snd (variable_ranges vars2 ! s) \<le> matrix_to_variable_index vars1 ! (m + 1)"
      if "1 \<le> matrix_index (submatrices computation ! s)"
    proof -
      from that have "1 \<le> m" by (simp add: m_def)
      with A[OF c, of m] m hi show ?thesis by simp
    qed
    with al hit vr rng lo show ?thesis unfolding m_def by simp
  qed
  have T: "((\<exists>vars2. ComputeVariableRanges computation vars1 = Inr vars2) \<or>
             ComputeVariableRanges computation vars1 = Inl AssertFailed) \<and>
            ((\<exists>vars2. ComputeVariableRanges computation vars1 = Inr vars2) \<longleftrightarrow>
             (\<forall>s. 1 \<le> s \<and> s < length (submatrices computation) \<longrightarrow>
                positive_width (submatrices computation ! s)))"
    if c: "ComputeSplitPoints computation vars0 = Inr vars1"
      and real: "\<forall>s. 1 \<le> s \<and> s < length (submatrices computation) \<longrightarrow>
              1 \<le> matrix_index (submatrices computation ! s)" for vars1
  proof -
    have "\<exists>vars2. ComputeVariableRanges computation vars1 = Inr vars2"
      if "\<forall>s. 1 \<le> s \<and> s < length (submatrices computation) \<longrightarrow>
                positive_width (submatrices computation ! s)"
      by (rule ComputeVariableRanges_succeeds[OF c])
         (use real that in \<open>simp add: positive_width_def\<close>)
    moreover have "positive_width (submatrices computation ! s)"
      if "ComputeVariableRanges computation vars1 = Inr vars2"
        and "1 \<le> s \<and> s < length (submatrices computation)" for vars2 s
      using ComputeVariableRanges_widths[OF c that(1)] that(2) real
      by (simp add: positive_width_def)
    ultimately show ?thesis
      using ComputeVariableRanges_cases[OF c real] by blast
  qed
  have F: "(\<forall>s. 1 \<le> s \<and> s < length (submatrices computation) \<longrightarrow>
                positive_width (submatrices computation ! s)) \<longleftrightarrow>
           (\<forall>s. 1 \<le> s \<and> s < length (submatrices computation) \<longrightarrow>
                 0 < num_cols (submatrices computation ! s))"
    if "\<forall>s. 1 \<le> s \<and> s < length (submatrices computation) \<longrightarrow>
                end_fits (submatrices computation ! s)"
    using that positive_width_fits by blast
  have "(\<forall>m. 1 \<le> m \<and> m < length (matrices computation) \<longrightarrow>
            sorted (split_points vars1 ! m) \<and> distinct (split_points vars1 ! m) \<and>
            2 \<le> length (split_points vars1 ! m) \<and>
            set (split_points vars1 ! m) = set (matrix_points computation m) \<and>
            matrix_to_variable_index vars1 ! (m + 1) - matrix_to_variable_index vars1 ! m
              = int (length (split_points vars1 ! m)) - 1) \<and>
         (\<forall>s. 1 \<le> s \<and> s < length (submatrices computation) \<and>
              1 \<le> matrix_index (submatrices computation ! s) \<and>
              col_offset (submatrices computation ! s)
                \<le> int32_add (col_offset (submatrices computation ! s))
                    (num_cols (submatrices computation ! s)) \<longrightarrow>
            searches_hit computation vars1 s) \<and>
         (\<forall>vars2. ComputeVariableRanges computation vars1 = Inr vars2 \<longrightarrow>
            (\<forall>s. 1 \<le> s \<and> s < length (submatrices computation) \<longrightarrow>
               searches_hit computation vars1 s \<and>
               view_aligned computation vars2 s \<and>
               split_points vars2 = split_points vars1 \<and>
               fst (variable_ranges vars2 ! s) < snd (variable_ranges vars2 ! s) \<and>
               (1 \<le> matrix_index (submatrices computation ! s) \<longrightarrow>
                  matrix_to_variable_index vars1 ! nat (matrix_index (submatrices computation ! s))
                    \<le> fst (variable_ranges vars2 ! s) \<and>
                  snd (variable_ranges vars2 ! s)
                    \<le> matrix_to_variable_index vars1 ! (nat (matrix_index (submatrices computation ! s)) + 1)))) \<and>
         ((\<forall>s. 1 \<le> s \<and> s < length (submatrices computation) \<longrightarrow>
              1 \<le> matrix_index (submatrices computation ! s)) \<longrightarrow>
            ((\<exists>vars2. ComputeVariableRanges computation vars1 = Inr vars2) \<or>
             ComputeVariableRanges computation vars1 = Inl AssertFailed) \<and>
            ((\<exists>vars2. ComputeVariableRanges computation vars1 = Inr vars2) \<longleftrightarrow>
             (\<forall>s. 1 \<le> s \<and> s < length (submatrices computation) \<longrightarrow>
                positive_width (submatrices computation ! s))) \<and>
            ((\<forall>s. 1 \<le> s \<and> s < length (submatrices computation) \<longrightarrow>
                end_fits (submatrices computation ! s)) \<longrightarrow>
             ((\<exists>vars2. ComputeVariableRanges computation vars1 = Inr vars2) \<longleftrightarrow>
              (\<forall>s. 1 \<le> s \<and> s < length (submatrices computation) \<longrightarrow>
                 0 < num_cols (submatrices computation ! s)))))"
    if c: "ComputeSplitPoints computation vars0 = Inr vars1" for vars1
  proof (intro conjI)
    show "\<forall>m. 1 \<le> m \<and> m < length (matrices computation) \<longrightarrow>
            sorted (split_points vars1 ! m) \<and> distinct (split_points vars1 ! m) \<and>
            2 \<le> length (split_points vars1 ! m) \<and>
            set (split_points vars1 ! m) = set (matrix_points computation m) \<and>
            matrix_to_variable_index vars1 ! (m + 1) - matrix_to_variable_index vars1 ! m
              = int (length (split_points vars1 ! m)) - 1"
      using A[OF c] by blast
    show "\<forall>s. 1 \<le> s \<and> s < length (submatrices computation) \<and>
              1 \<le> matrix_index (submatrices computation ! s) \<and>
              col_offset (submatrices computation ! s)
                \<le> int32_add (col_offset (submatrices computation ! s))
                    (num_cols (submatrices computation ! s)) \<longrightarrow>
            searches_hit computation vars1 s"
      using H[OF c] by blast
    show "\<forall>vars2. ComputeVariableRanges computation vars1 = Inr vars2 \<longrightarrow>
            (\<forall>s. 1 \<le> s \<and> s < length (submatrices computation) \<longrightarrow>
               searches_hit computation vars1 s \<and>
               view_aligned computation vars2 s \<and>
               split_points vars2 = split_points vars1 \<and>
               fst (variable_ranges vars2 ! s) < snd (variable_ranges vars2 ! s) \<and>
               (1 \<le> matrix_index (submatrices computation ! s) \<longrightarrow>
                  matrix_to_variable_index vars1 ! nat (matrix_index (submatrices computation ! s))
                    \<le> fst (variable_ranges vars2 ! s) \<and>
                  snd (variable_ranges vars2 ! s)
                    \<le> matrix_to_variable_index vars1 ! (nat (matrix_index (submatrices computation ! s)) + 1)))"
      using B[OF c] by blast
    show "(\<forall>s. 1 \<le> s \<and> s < length (submatrices computation) \<longrightarrow>
              1 \<le> matrix_index (submatrices computation ! s)) \<longrightarrow>
            ((\<exists>vars2. ComputeVariableRanges computation vars1 = Inr vars2) \<or>
             ComputeVariableRanges computation vars1 = Inl AssertFailed) \<and>
            ((\<exists>vars2. ComputeVariableRanges computation vars1 = Inr vars2) \<longleftrightarrow>
             (\<forall>s. 1 \<le> s \<and> s < length (submatrices computation) \<longrightarrow>
                positive_width (submatrices computation ! s))) \<and>
            ((\<forall>s. 1 \<le> s \<and> s < length (submatrices computation) \<longrightarrow>
                end_fits (submatrices computation ! s)) \<longrightarrow>
             ((\<exists>vars2. ComputeVariableRanges computation vars1 = Inr vars2) \<longleftrightarrow>
              (\<forall>s. 1 \<le> s \<and> s < length (submatrices computation) \<longrightarrow>
                 0 < num_cols (submatrices computation ! s))))"
      using T[OF c] F by blast
  qed
  with R show ?thesis by blast
qed

theorem region_partition_aligned_witness:
  "split_points empty_variables = [] \<and>
   partition_defined example_computation \<and>
   ComputeSplitPoints example_computation empty_variables = Inr example_vars1 \<and>
   ComputeVariableRanges example_computation example_vars1 = Inr example_vars2 \<and>
   sorted (split_points example_vars1 ! 1) \<and> distinct (split_points example_vars1 ! 1) \<and>
   2 \<le> length (split_points example_vars1 ! 1) \<and>
   set (split_points example_vars1 ! 1) = {0, 3, 5} \<and>
   searches_hit example_computation example_vars1 3 \<and>
   view_aligned example_computation example_vars2 3 \<and>
   fst (variable_ranges example_vars2 ! 3) < snd (variable_ranges example_vars2 ! 3) \<and>
   variable_ranges example_vars2 ! 3 = (1, 2) \<and>
   0 < num_cols (submatrices example_computation ! 3) \<and>
   ComputeSplitPoints example_wrap_computation empty_variables = Inr example_wrap_vars1 \<and>
   ComputeVariableRanges example_wrap_computation example_wrap_vars1 = Inl AssertFailed"
proof -
  have e0: "split_points empty_variables = []" by (simp add: empty_variables_def)
  have e1: "ComputeSplitPoints example_computation empty_variables = Inr example_vars1"
    by code_simp
  have e2: "ComputeVariableRanges example_computation example_vars1 = Inr example_vars2"
    by code_simp
  have m: "1 \<le> (1::nat) \<and> 1 < length (matrices example_computation)"
    by (simp add: example_computation_def)
  have s: "1 \<le> (3::nat) \<and> 3 < length (submatrices example_computation)"
    by (simp add: example_computation_def)
  note t0 = region_partition_aligned[OF e0, of example_computation]
  from t0[THEN conjunct1] e1 have d: "partition_defined example_computation" by blast
  note t = t0[THEN conjunct2, rule_format, OF e1]
  from t[THEN conjunct1, rule_format, OF m]
  have a: "sorted (split_points example_vars1 ! 1) \<and> distinct (split_points example_vars1 ! 1) \<and>
     2 \<le> length (split_points example_vars1 ! 1)" by simp
  have a': "set (split_points example_vars1 ! 1) = {0, 3, 5}"
    by (simp add: example_vars1_def)
  from t[THEN conjunct2, THEN conjunct2, THEN conjunct1, rule_format, OF e2 s]
  have b: "searches_hit example_computation example_vars1 3 \<and>
     view_aligned example_computation example_vars2 3 \<and>
     fst (variable_ranges example_vars2 ! 3) < snd (variable_ranges example_vars2 ! 3)" by simp
  have c: "variable_ranges example_vars2 ! 3 = (1, 2)"
    by (simp add: example_vars2_def)
  have real: "\<forall>s. 1 \<le> s \<and> s < length (submatrices example_computation) \<longrightarrow>
      1 \<le> matrix_index (submatrices example_computation ! s)"
  proof (intro allI impI)
    fix s :: nat
    assume "1 \<le> s \<and> s < length (submatrices example_computation)"
    then have "s = 1 \<or> s = 2 \<or> s = 3" by (simp add: example_computation_def) arith
    then show "1 \<le> matrix_index (submatrices example_computation ! s)"
      by (auto simp: example_computation_def)
  qed
  have fits: "\<forall>s. 1 \<le> s \<and> s < length (submatrices example_computation) \<longrightarrow>
      end_fits (submatrices example_computation ! s)"
  proof (intro allI impI)
    fix s :: nat
    assume "1 \<le> s \<and> s < length (submatrices example_computation)"
    then have "s = 1 \<or> s = 2 \<or> s = 3" by (simp add: example_computation_def) arith
    then show "end_fits (submatrices example_computation ! s)"
      by (auto simp: example_computation_def end_fits_def)
  qed
  from t[THEN conjunct2, THEN conjunct2, THEN conjunct2, THEN mp, OF real] fits e2
  have "\<forall>s. 1 \<le> s \<and> s < length (submatrices example_computation) \<longrightarrow>
      0 < num_cols (submatrices example_computation ! s)" by blast
  with s have p: "0 < num_cols (submatrices example_computation ! 3)" by blast
  have w1: "ComputeSplitPoints example_wrap_computation empty_variables = Inr example_wrap_vars1"
    by code_simp
  have wreal: "\<forall>s. 1 \<le> s \<and> s < length (submatrices example_wrap_computation) \<longrightarrow>
      1 \<le> matrix_index (submatrices example_wrap_computation ! s)"
  proof (intro allI impI)
    fix s :: nat
    assume "1 \<le> s \<and> s < length (submatrices example_wrap_computation)"
    then have "s = 1" by (simp add: example_wrap_computation_def)
    then show "1 \<le> matrix_index (submatrices example_wrap_computation ! s)"
      by (simp add: example_wrap_computation_def)
  qed
  have wneg: "\<not> (\<forall>s. 1 \<le> s \<and> s < length (submatrices example_wrap_computation) \<longrightarrow>
      positive_width (submatrices example_wrap_computation ! s))"
  proof
    assume "\<forall>s. 1 \<le> s \<and> s < length (submatrices example_wrap_computation) \<longrightarrow>
      positive_width (submatrices example_wrap_computation ! s)"
    then have "1 \<le> (1::nat) \<and> 1 < length (submatrices example_wrap_computation) \<longrightarrow>
      positive_width (submatrices example_wrap_computation ! 1)" by blast
    then have "positive_width (submatrices example_wrap_computation ! 1)"
      by (simp add: example_wrap_computation_def)
    then show False
      by (simp add: example_wrap_computation_def positive_width_def int32_add_def)
  qed
  from region_partition_aligned[OF e0, of example_wrap_computation, THEN conjunct2, rule_format,
      OF w1, THEN conjunct2, THEN conjunct2, THEN conjunct2, THEN mp, OF wreal] wneg
  have w2: "ComputeVariableRanges example_wrap_computation example_wrap_vars1 = Inl AssertFailed"
    by blast
  from e0 d e1 e2 a a' b c p w1 w2 show ?thesis by simp
qed

section \<open>Access classifier: what a list of touches records\<close>

lemma count_list_pos: "0 < count_list xs x \<longleftrightarrow> x \<in> set xs"
  by (induction xs) auto

lemma classified_two:
  "classified vars [(d, ad), (s, as)] =
     and_then (and_then (RecordAccessForSubmatrix vars d ad empty_attributes)
                 (RecordAccessForSubmatrix vars s as)) (\<lambda>attr. Inr (sort_attributes attr))"
  by (simp add: classified_def and_then_def split: sum.splits)

lemma Record_views:
  assumes "s = 0 \<or> views_in_range vars s"
  shows "\<exists>ca'. RecordAccessForSubmatrix vars s access ca = Inr ca' \<and>
           submatrices_read ca' =
             (if s = 0 \<or> access = kWriteAccess then submatrices_read ca
              else submatrices_read ca @ [s]) \<and>
           submatrices_written ca' =
             (if s = 0 \<or> access = kReadAccess then submatrices_written ca
              else submatrices_written ca @ [s])"
proof (cases "s = 0")
  case True
  then show ?thesis by (simp add: RecordAccessForSubmatrix_def)
next
  case False
  with assms have v: "views_in_range vars s" by simp
  show ?thesis
    using False v
    by (cases access)
       (simp_all add: RecordAccessForSubmatrix_def AppendVariablesForSubmatrix_def
          and_then_def Let_def views_in_range_def)
qed

lemma for_loop_record:
  assumes "\<forall>(s, access)\<in>set touches. s = 0 \<or> views_in_range vars s"
  shows "\<exists>ca'. for_loop touches (\<lambda>(s, access). RecordAccessForSubmatrix vars s access) ca = Inr ca' \<and>
           submatrices_read ca' = submatrices_read ca @ read_views touches \<and>
           submatrices_written ca' = submatrices_written ca @ written_views touches"
  using assms
proof (induction touches arbitrary: ca)
  case Nil
  then show ?case by (simp add: read_views_def written_views_def)
next
  case (Cons t rest)
  obtain s access where t: "t = (s, access)" by (cases t)
  from Cons.prems t have "s = 0 \<or> views_in_range vars s" by simp
  from Record_views[OF this, of access ca] obtain ca1 where
    r: "RecordAccessForSubmatrix vars s access ca = Inr ca1" and
    rd: "submatrices_read ca1 =
           (if s = 0 \<or> access = kWriteAccess then submatrices_read ca else submatrices_read ca @ [s])" and
    wr: "submatrices_written ca1 =
           (if s = 0 \<or> access = kReadAccess then submatrices_written ca
            else submatrices_written ca @ [s])"
    by blast
  from Cons.prems have "\<forall>(s, access)\<in>set rest. s = 0 \<or> views_in_range vars s" by simp
  from Cons.IH[OF this, of ca1] obtain ca' where
    l: "for_loop rest (\<lambda>(s, access). RecordAccessForSubmatrix vars s access) ca1 = Inr ca'" and
    rd': "submatrices_read ca' = submatrices_read ca1 @ read_views rest" and
    wr': "submatrices_written ca' = submatrices_written ca1 @ written_views rest"
    by blast
  have "for_loop (t # rest) (\<lambda>(s, access). RecordAccessForSubmatrix vars s access) ca = Inr ca'"
    using t r l by simp
  moreover have "submatrices_read ca' = submatrices_read ca @ read_views (t # rest)"
    using rd rd' t by (simp add: read_views_def)
  moreover have "submatrices_written ca' = submatrices_written ca @ written_views (t # rest)"
    using wr wr' t by (simp add: written_views_def)
  ultimately show ?case by blast
qed

lemma classified_views:
  assumes "\<forall>(s, access)\<in>set touches. s = 0 \<or> views_in_range vars s"
  shows "\<exists>attr. classified vars touches = Inr attr \<and>
           set (submatrices_read attr) = set (read_views touches) \<and>
           set (submatrices_written attr) = set (written_views touches)"
proof -
  from for_loop_record[OF assms, of empty_attributes] obtain ca' where
    "for_loop touches (\<lambda>(s, access). RecordAccessForSubmatrix vars s access) empty_attributes = Inr ca'"
    "submatrices_read ca' = read_views touches" "submatrices_written ca' = written_views touches"
    by (auto simp: empty_attributes_def)
  then show ?thesis
    by (simp add: classified_def and_then_def sort_attributes_def SortAndUniq_set)
qed


section \<open>Access classifier: recording a write\<close>

lemma range_body_full:
  assumes "range_body computation i t = Inr t'"
  shows "length (full_column_range t') = length (full_column_range t) \<and>
         (\<forall>j. j \<noteq> i \<longrightarrow> full_column_range t' ! j = full_column_range t ! j) \<and>
         (i < length (full_column_range t) \<longrightarrow>
            full_column_range t' ! i =
              (row_offset (submatrices computation ! i) = 0 \<and>
               num_rows (submatrices computation ! i) =
                 m_num_rows (matrices computation ! nat (matrix_index (submatrices computation ! i)))))"
proof -
  define s where "s = submatrices computation ! i"
  define m where "m = nat (matrix_index s)"
  define split where "split = split_points t ! m"
  define base where "base = matrix_to_variable_index t ! m"
  define i0 where "i0 = lower_bound split 0 (length split) (col_offset s)"
  define i1 where "i1 = lower_bound split i0 (length split - i0) (int32_add (col_offset s) (num_cols s))"
  note defs = s_def[symmetric] m_def[symmetric] split_def[symmetric] base_def[symmetric]
    i0_def[symmetric] i1_def[symmetric]
  have rb: "range_body computation i t =
     (if \<not> in_range (matrix_index s) (length (split_points t)) then Inl UndefinedBehaviour
      else if i0 = length split then Inl UndefinedBehaviour
      else if split ! i0 \<noteq> col_offset s then Inl AssertFailed
      else if i1 = length split then Inl UndefinedBehaviour
      else if split ! i1 \<noteq> int32_add (col_offset s) (num_cols s) then Inl AssertFailed
      else if \<not> m < length (matrix_to_variable_index t) then Inl UndefinedBehaviour
      else if \<not> base + int i0 < base + int i1 then Inl AssertFailed
      else if row_offset s = 0 \<and> \<not> m < length (matrices computation) then Inl UndefinedBehaviour
      else Inr (t\<lparr>variable_ranges := (variable_ranges t)[i := (base + int i0, base + int i1)],
                 full_column_range := (full_column_range t)
                   [i := (row_offset s = 0 \<and> num_rows s = m_num_rows (matrices computation ! m))]\<rparr>))"
    unfolding range_body_def Let_def defs by (rule refl)
  from assms[unfolded rb] have
    t': "t' = t\<lparr>variable_ranges := (variable_ranges t)[i := (base + int i0, base + int i1)],
                 full_column_range := (full_column_range t)
                   [i := (row_offset s = 0 \<and> num_rows s = m_num_rows (matrices computation ! m))]\<rparr>"
    by (simp split: if_splits)
  show ?thesis unfolding t' s_def m_def by simp
qed

lemma range_body_loop_full:
  assumes "for_loop [1..<k] (range_body computation) w = Inr v2"
    and "length (full_column_range w) = k"
  shows "length (full_column_range v2) = k \<and>
         (\<forall>s\<in>set [1..<k]. full_column_range v2 ! s =
              (row_offset (submatrices computation ! s) = 0 \<and>
               num_rows (submatrices computation ! s) =
                 m_num_rows (matrices computation ! nat (matrix_index (submatrices computation ! s)))))"
proof (rule for_loop_rule[OF assms(1),
        where P = "\<lambda>ds t. length (full_column_range t) = k \<and>
         (\<forall>s\<in>set ds. full_column_range t ! s =
              (row_offset (submatrices computation ! s) = 0 \<and>
               num_rows (submatrices computation ! s) =
                 m_num_rows (matrices computation ! nat (matrix_index (submatrices computation ! s)))))"])
  show "length (full_column_range w) = k \<and>
    (\<forall>s\<in>set []. full_column_range w ! s =
              (row_offset (submatrices computation ! s) = 0 \<and>
               num_rows (submatrices computation ! s) =
                 m_num_rows (matrices computation ! nat (matrix_index (submatrices computation ! s)))))"
    using assms(2) by simp
next
  fix ds i rest t t'
  assume sp: "[1..<k] = ds @ i # rest"
    and inv: "length (full_column_range t) = k \<and>
         (\<forall>s\<in>set ds. full_column_range t ! s =
              (row_offset (submatrices computation ! s) = 0 \<and>
               num_rows (submatrices computation ! s) =
                 m_num_rows (matrices computation ! nat (matrix_index (submatrices computation ! s)))))"
    and body: "range_body computation i t = Inr t'"
  from upt_split_less[OF sp] have lt: "\<forall>m\<in>set ds. m \<noteq> i" and i: "i < k" by auto
  note rb = range_body_full[OF body]
  show "length (full_column_range t') = k \<and>
         (\<forall>s\<in>set (ds @ [i]). full_column_range t' ! s =
              (row_offset (submatrices computation ! s) = 0 \<and>
               num_rows (submatrices computation ! s) =
                 m_num_rows (matrices computation ! nat (matrix_index (submatrices computation ! s)))))"
    using rb inv lt i by simp
qed

lemma info_body_loop:
  assumes "for_loop [1..<k] (info_body computation) w = Inr v"
    and "length (submatrix_to_matrix w) = k" and "length (submatrix_is_whole_matrix w) = k"
  shows "length (submatrix_to_matrix v) = k \<and> length (submatrix_is_whole_matrix v) = k \<and>
         (\<forall>s\<in>set [1..<k].
            submatrix_to_matrix v ! s = matrix_index (submatrices computation ! s) \<and>
            submatrix_is_whole_matrix v ! s = IsWholeMatrix computation s)"
proof (rule for_loop_rule[OF assms(1),
        where P = "\<lambda>ds t. length (submatrix_to_matrix t) = k \<and>
           length (submatrix_is_whole_matrix t) = k \<and>
           (\<forall>s\<in>set ds.
              submatrix_to_matrix t ! s = matrix_index (submatrices computation ! s) \<and>
              submatrix_is_whole_matrix t ! s = IsWholeMatrix computation s)"])
  show "length (submatrix_to_matrix w) = k \<and> length (submatrix_is_whole_matrix w) = k \<and>
    (\<forall>s\<in>set []. submatrix_to_matrix w ! s = matrix_index (submatrices computation ! s) \<and>
        submatrix_is_whole_matrix w ! s = IsWholeMatrix computation s)"
    using assms(2,3) by simp
next
  fix ds i rest t t'
  assume sp: "[1..<k] = ds @ i # rest"
    and inv: "length (submatrix_to_matrix t) = k \<and>
           length (submatrix_is_whole_matrix t) = k \<and>
           (\<forall>s\<in>set ds.
              submatrix_to_matrix t ! s = matrix_index (submatrices computation ! s) \<and>
              submatrix_is_whole_matrix t ! s = IsWholeMatrix computation s)"
    and body: "info_body computation i t = Inr t'"
  from upt_split_less[OF sp] have lt: "\<forall>m\<in>set ds. m \<noteq> i" and i: "i < k" by auto
  from body have t': "t' = t\<lparr>submatrix_to_matrix :=
                 (submatrix_to_matrix t)[i := matrix_index (submatrices computation ! i)],
               submatrix_is_whole_matrix :=
                 (submatrix_is_whole_matrix t)[i := IsWholeMatrix computation i]\<rparr>"
    by (simp add: info_body_def)
  show "length (submatrix_to_matrix t') = k \<and>
           length (submatrix_is_whole_matrix t') = k \<and>
           (\<forall>s\<in>set (ds @ [i]).
              submatrix_to_matrix t' ! s = matrix_index (submatrices computation ! s) \<and>
              submatrix_is_whole_matrix t' ! s = IsWholeMatrix computation s)"
    using t' inv lt i by auto
qed

lemma ComputeVariableRanges_full:
  assumes "ComputeVariableRanges computation v1 = Inr v2"
  shows "length (full_column_range v2) = length (submatrices computation) \<and>
         (\<forall>s\<in>set [1..<length (submatrices computation)]. full_column_range v2 ! s =
              (row_offset (submatrices computation ! s) = 0 \<and>
               num_rows (submatrices computation ! s) =
                 m_num_rows (matrices computation ! nat (matrix_index (submatrices computation ! s)))))"
proof -
  let ?k = "length (submatrices computation)"
  let ?w = "v1\<lparr>variable_ranges := (resize ?k (0, 0) (variable_ranges v1))[0 := (0, 0)],
                 full_column_range := resize ?k False (full_column_range v1)\<rparr>"
  from assms have l: "for_loop [1..<?k] (range_body computation) ?w = Inr v2"
    by (simp add: ComputeVariableRanges_def Let_def split: if_splits)
  have "length (full_column_range ?w) = ?k" by (simp add: resize_length)
  from range_body_loop_full[OF l this] show ?thesis .
qed

lemma v2m_body_same:
  "v2m_body m i t = Inr t' \<Longrightarrow>
     (variable_ranges t', full_column_range t') = (variable_ranges t, full_column_range t)"
  by (auto simp: v2m_body_def Let_def split: if_splits)

lemma v2m_submatrix_same:
  assumes "v2m_submatrix computation i t = Inr t'"
  shows "(variable_ranges t', full_column_range t') = (variable_ranges t, full_column_range t)"
proof -
  from assms obtain m js where "for_loop js (v2m_body m) t = Inr t'"
    by (auto simp: v2m_submatrix_def Let_def split: if_splits)
  then show ?thesis
    by (rule for_loop_preserves) (rule v2m_body_same)
qed

lemma ComputeVariableToMatrix_same:
  assumes "ComputeVariableToMatrix computation v2 = Inr v3"
  shows "variable_ranges v3 = variable_ranges v2 \<and> full_column_range v3 = full_column_range v2"
proof -
  let ?w = "v2\<lparr>variable_to_matrix := replicate (nat (num_variables v2)) (- 1)\<rparr>"
  from assms have "for_loop [1..<length (variable_ranges v2)] (v2m_submatrix computation) ?w = Inr v3"
    by (auto simp: ComputeVariableToMatrix_def and_then_Inr split: if_splits)
  then have "(variable_ranges v3, full_column_range v3) = (variable_ranges ?w, full_column_range ?w)"
    by (rule for_loop_preserves) (rule v2m_submatrix_same)
  then show ?thesis by simp
qed

lemma ComputeSubmatrixInfo_Inr:
  assumes "ComputeSubmatrixInfo computation v3 = Inr v"
  shows "variable_ranges v = variable_ranges v3 \<and> full_column_range v = full_column_range v3 \<and>
         length (submatrix_to_matrix v) = length (submatrices computation) \<and>
         length (submatrix_is_whole_matrix v) = length (submatrices computation) \<and>
         (\<forall>s\<in>set [1..<length (submatrices computation)].
            submatrix_to_matrix v ! s = matrix_index (submatrices computation ! s) \<and>
            submatrix_is_whole_matrix v ! s = IsWholeMatrix computation s)"
proof -
  let ?k = "length (submatrices computation)"
  let ?w = "v3\<lparr>submatrix_to_matrix := resize ?k 0 (submatrix_to_matrix v3),
                 submatrix_is_whole_matrix := resize ?k False (submatrix_is_whole_matrix v3)\<rparr>"
  from assms have l: "for_loop [1..<?k] (info_body computation) ?w = Inr v"
    by (simp add: ComputeSubmatrixInfo_def Let_def)
  have "(variable_ranges v, full_column_range v) = (variable_ranges ?w, full_column_range ?w)"
    by (rule for_loop_preserves[OF l]) (auto simp: info_body_def)
  moreover have "length (submatrix_to_matrix ?w) = ?k" "length (submatrix_is_whole_matrix ?w) = ?k"
    by (simp_all add: resize_length)
  from info_body_loop[OF l this]
  have "length (submatrix_to_matrix v) = ?k \<and> length (submatrix_is_whole_matrix v) = ?k \<and>
         (\<forall>s\<in>set [1..<?k].
            submatrix_to_matrix v ! s = matrix_index (submatrices computation ! s) \<and>
            submatrix_is_whole_matrix v ! s = IsWholeMatrix computation s)" .
  ultimately show ?thesis by simp
qed

lemma Init_Inr:
  assumes "Init computation v0 = Inr vars"
  shows "length (variable_ranges vars) = length (submatrices computation) \<and>
         length (full_column_range vars) = length (submatrices computation) \<and>
         length (submatrix_to_matrix vars) = length (submatrices computation) \<and>
         length (submatrix_is_whole_matrix vars) = length (submatrices computation) \<and>
         (\<forall>s\<in>set [1..<length (submatrices computation)].
            submatrix_to_matrix vars ! s = matrix_index (submatrices computation ! s) \<and>
            submatrix_is_whole_matrix vars ! s = IsWholeMatrix computation s \<and>
            full_column_range vars ! s =
              (row_offset (submatrices computation ! s) = 0 \<and>
               num_rows (submatrices computation ! s) =
                 m_num_rows (matrices computation ! nat (matrix_index (submatrices computation ! s)))))"
proof -
  from assms obtain v1 v2 v3 where
    1: "ComputeSplitPoints computation v0 = Inr v1" and
    2: "ComputeVariableRanges computation v1 = Inr v2" and
    3: "ComputeVariableToMatrix computation v2 = Inr v3" and
    4: "ComputeSubmatrixInfo computation v3 = Inr vars"
    by (auto simp: Init_def and_then_Inr split: if_splits)
  from ComputeVariableRanges_Inr[OF 2] ComputeVariableRanges_full[OF 2]
    ComputeVariableToMatrix_same[OF 3] ComputeSubmatrixInfo_Inr[OF 4]
  show ?thesis by simp
qed

lemma Init_views_in_range:
  assumes "Init computation v0 = Inr vars"
    and "1 \<le> s" and "s < length (submatrices computation)"
  shows "views_in_range vars (int s)"
  using Init_Inr[OF assms(1)] assms(2,3)
  by (simp add: views_in_range_def in_range_def)

lemma RecordAccessForSubmatrix_write:
  assumes "s \<noteq> 0"
    and "in_range s (length (submatrix_to_matrix vars))"
    and "in_range s (length (submatrix_is_whole_matrix vars))"
    and "in_range s (length (full_column_range vars))"
    and "in_range s (length (variable_ranges vars))"
  shows "RecordAccessForSubmatrix vars s kWriteAccess ca =
     Inr (let m = submatrix_to_matrix vars ! nat s;
              range = [fst (variable_ranges vars ! nat s)..snd (variable_ranges vars ! nat s) - 1]
          in ca\<lparr>variables_written := variables_written ca @ range,
                submatrices_written := submatrices_written ca @ [s],
                matrices_written := matrices_written ca @ [m],
                variables_read :=
                  (if full_column_range vars ! nat s then variables_read ca
                   else variables_read ca @ range),
                matrices_read :=
                  (if submatrix_is_whole_matrix vars ! nat s then matrices_read ca
                   else matrices_read ca @ [m])\<rparr>)"
  using assms
  by (simp add: RecordAccessForSubmatrix_def AppendVariablesForSubmatrix_def and_then_def Let_def)

text \<open>
  C2. On the variables that \<open>Init\<close> computes for a program, recording a write access
  for a view other than the null one appends the view's variable range to
  \<open>variables_written\<close>, the view to \<open>submatrices_written\<close> and its matrix to
  \<open>matrices_written\<close>; it appends the same range to \<open>variables_read\<close> exactly when the
  view does not span all the rows of its matrix, and the matrix to \<open>matrices_read\<close>
  exactly when the view is not the whole matrix. Nothing else changes: in particular
  \<open>submatrices_read\<close> does not get the view.
\<close>

theorem write_access_recorded:
  assumes "Init computation vars0 = Inr vars"
    and "1 \<le> s" and "s < length (submatrices computation)"
  shows "RecordAccessForSubmatrix vars (int s) kWriteAccess ca =
     Inr (let info = submatrices computation ! s;
              m = matrix_index info;
              range = [fst (variable_ranges vars ! s)..snd (variable_ranges vars ! s) - 1];
              full_row = (row_offset info = 0 \<and>
                          num_rows info = m_num_rows (matrices computation ! nat m));
              whole = IsWholeMatrix computation s
          in ca\<lparr>variables_written := variables_written ca @ range,
                submatrices_written := submatrices_written ca @ [int s],
                matrices_written := matrices_written ca @ [m],
                variables_read :=
                  (if full_row then variables_read ca else variables_read ca @ range),
                matrices_read :=
                  (if whole then matrices_read ca else matrices_read ca @ [m])\<rparr>)"
proof -
  note i = Init_Inr[OF assms(1)]
  from assms(2,3) have mem: "s \<in> set [1..<length (submatrices computation)]" by simp
  from i mem have v:
    "submatrix_to_matrix vars ! s = matrix_index (submatrices computation ! s)"
    "submatrix_is_whole_matrix vars ! s = IsWholeMatrix computation s"
    "full_column_range vars ! s =
       (row_offset (submatrices computation ! s) = 0 \<and>
        num_rows (submatrices computation ! s) =
          m_num_rows (matrices computation ! nat (matrix_index (submatrices computation ! s))))"
    by blast+
  have r: "int s \<noteq> 0" "in_range (int s) (length (submatrix_to_matrix vars))"
    "in_range (int s) (length (submatrix_is_whole_matrix vars))"
    "in_range (int s) (length (full_column_range vars))"
    "in_range (int s) (length (variable_ranges vars))"
    using i assms(2,3) by (simp_all add: in_range_def)
  show ?thesis
    unfolding RecordAccessForSubmatrix_write[OF r] Let_def
    by (simp add: v)
qed

theorem write_access_recorded_witness:
  "Init example_computation empty_variables = Inr example_vars \<and>
   RecordAccessForSubmatrix example_vars 1 kWriteAccess empty_attributes =
     Inr (empty_attributes\<lparr>variables_written := [0, 1], submatrices_written := [1],
            matrices_written := [1]\<rparr>) \<and>
   RecordAccessForSubmatrix example_vars 2 kWriteAccess empty_attributes =
     Inr (empty_attributes\<lparr>variables_written := [0], submatrices_written := [2],
            matrices_written := [1], matrices_read := [1]\<rparr>) \<and>
   RecordAccessForSubmatrix example_vars 3 kWriteAccess empty_attributes =
     Inr (empty_attributes\<lparr>variables_written := [1], submatrices_written := [3],
            matrices_written := [1], variables_read := [1], matrices_read := [1]\<rparr>)"
proof -
  have e: "Init example_computation empty_variables = Inr example_vars"
    by code_simp
  have l: "(1::nat) < length (submatrices example_computation)"
    "(2::nat) < length (submatrices example_computation)"
    "(3::nat) < length (submatrices example_computation)"
    by (simp_all add: example_computation_def)
  have up: "[0..0] = [0::int]" "[0..1] = [0, 1::int]" "[1..1] = [1::int]"
    by (simp_all add: upto.simps)
  from write_access_recorded[OF e _ l(1), of empty_attributes]
  have a: "RecordAccessForSubmatrix example_vars 1 kWriteAccess empty_attributes =
     Inr (empty_attributes\<lparr>variables_written := [0, 1], submatrices_written := [1],
            matrices_written := [1]\<rparr>)"
    by (simp add: example_computation_def example_vars_def example_vars2_def example_vars1_def
          empty_variables_def empty_attributes_def IsWholeMatrix_def up Let_def)
  from write_access_recorded[OF e _ l(2), of empty_attributes]
  have b: "RecordAccessForSubmatrix example_vars 2 kWriteAccess empty_attributes =
     Inr (empty_attributes\<lparr>variables_written := [0], submatrices_written := [2],
            matrices_written := [1], matrices_read := [1]\<rparr>)"
    by (simp add: example_computation_def example_vars_def example_vars2_def example_vars1_def
          empty_variables_def empty_attributes_def IsWholeMatrix_def up Let_def)
  from write_access_recorded[OF e _ l(3), of empty_attributes]
  have c: "RecordAccessForSubmatrix example_vars 3 kWriteAccess empty_attributes =
     Inr (empty_attributes\<lparr>variables_written := [1], submatrices_written := [3],
            matrices_written := [1], variables_read := [1], matrices_read := [1]\<rparr>)"
    by (simp add: example_computation_def example_vars_def example_vars2_def example_vars1_def
          empty_variables_def empty_attributes_def IsWholeMatrix_def up Let_def)
  from e a b c show ?thesis by blast
qed

section \<open>Access classifier: gather-rows copy\<close>

text \<open>
  C3. The attributes of a \<open>kCopyRows\<close> command are those of a write of its
  destination and a read of its source when the index list holds no \<open>-1\<close>, and those
  of a read-write of the destination and a read of the source when it holds one. So a
  program whose list holds no \<open>-1\<close>, and the same program with one entry of the list
  set to \<open>-1\<close>, differ in the destination going from write to read-write. With both
  views in range, the destination is among the views read exactly when the list
  holds \<open>-1\<close> (or the two views are the same).
\<close>

theorem copy_rows_classification:
  assumes "command_type c = kCopyRows"
    and "in_range (arg3 c) (length (indexes computation))"
  shows "attributes_of_command nnet fl computation vars c =
           classified vars
             [(arg1 c, if - 1 \<in> set (indexes computation ! nat (arg3 c))
                       then kReadWriteAccess else kWriteAccess),
              (arg2 c, kReadAccess)] \<and>
         (- 1 \<notin> set (indexes computation ! nat (arg3 c)) \<and>
          i < length (indexes computation ! nat (arg3 c)) \<longrightarrow>
           attributes_of_command nnet fl computation vars c =
             classified vars [(arg1 c, kWriteAccess), (arg2 c, kReadAccess)] \<and>
           attributes_of_command nnet fl
             (computation\<lparr>indexes := (indexes computation)
                [nat (arg3 c) := (indexes computation ! nat (arg3 c))[i := - 1]]\<rparr>) vars c =
             classified vars [(arg1 c, kReadWriteAccess), (arg2 c, kReadAccess)]) \<and>
         (arg1 c \<noteq> 0 \<and> views_in_range vars (arg1 c) \<and>
          arg2 c \<noteq> 0 \<and> views_in_range vars (arg2 c) \<longrightarrow>
           (\<exists>attr. attributes_of_command nnet fl computation vars c = Inr attr \<and>
              set (submatrices_written attr) = {arg1 c} \<and>
              arg2 c \<in> set (submatrices_read attr) \<and>
              (arg1 c \<in> set (submatrices_read attr) \<longleftrightarrow>
                 - 1 \<in> set (indexes computation ! nat (arg3 c)) \<or> arg1 c = arg2 c)))"
proof -
  have gen: "attributes_of_command nnet fl comp vars c =
           classified vars
             [(arg1 c, if - 1 \<in> set (indexes comp ! nat (arg3 c))
                       then kReadWriteAccess else kWriteAccess),
              (arg2 c, kReadAccess)]"
    if "in_range (arg3 c) (length (indexes comp))" for comp
    using assms(1) that
    by (simp add: attributes_of_command_def attributes_switch_def classified_two count_list_pos
          Let_def)
  have 1: "attributes_of_command nnet fl computation vars c =
           classified vars
             [(arg1 c, if - 1 \<in> set (indexes computation ! nat (arg3 c))
                       then kReadWriteAccess else kWriteAccess),
              (arg2 c, kReadAccess)]"
    by (rule gen[OF assms(2)])
  have 2: "- 1 \<notin> set (indexes computation ! nat (arg3 c)) \<and>
         i < length (indexes computation ! nat (arg3 c)) \<longrightarrow>
           attributes_of_command nnet fl computation vars c =
             classified vars [(arg1 c, kWriteAccess), (arg2 c, kReadAccess)] \<and>
           attributes_of_command nnet fl
             (computation\<lparr>indexes := (indexes computation)
                [nat (arg3 c) := (indexes computation ! nat (arg3 c))[i := - 1]]\<rparr>) vars c =
             classified vars [(arg1 c, kReadWriteAccess), (arg2 c, kReadAccess)]"
  proof (intro impI)
    assume h: "- 1 \<notin> set (indexes computation ! nat (arg3 c)) \<and>
         i < length (indexes computation ! nat (arg3 c))"
    let ?comp' = "computation\<lparr>indexes := (indexes computation)
                [nat (arg3 c) := (indexes computation ! nat (arg3 c))[i := - 1]]\<rparr>"
    from assms(2) have n: "nat (arg3 c) < length (indexes computation)"
      by (auto simp: in_range_def)
    have r': "in_range (arg3 c) (length (indexes ?comp'))" using assms(2) by simp
    have "indexes ?comp' ! nat (arg3 c) = (indexes computation ! nat (arg3 c))[i := - 1]"
      using n by simp
    moreover have "- 1 \<in> set ((indexes computation ! nat (arg3 c))[i := - 1])"
      using h by (simp add: set_update_memI)
    ultimately have s': "- 1 \<in> set (indexes ?comp' ! nat (arg3 c))" by simp
    from 1 h gen[OF r'] s'
    show "attributes_of_command nnet fl computation vars c =
             classified vars [(arg1 c, kWriteAccess), (arg2 c, kReadAccess)] \<and>
           attributes_of_command nnet fl ?comp' vars c =
             classified vars [(arg1 c, kReadWriteAccess), (arg2 c, kReadAccess)]"
      by simp
  qed
  have 3: "arg1 c \<noteq> 0 \<and> views_in_range vars (arg1 c) \<and>
         arg2 c \<noteq> 0 \<and> views_in_range vars (arg2 c) \<longrightarrow>
           (\<exists>attr. attributes_of_command nnet fl computation vars c = Inr attr \<and>
              set (submatrices_written attr) = {arg1 c} \<and>
              arg2 c \<in> set (submatrices_read attr) \<and>
              (arg1 c \<in> set (submatrices_read attr) \<longleftrightarrow>
                 - 1 \<in> set (indexes computation ! nat (arg3 c)) \<or> arg1 c = arg2 c))"
  proof (intro impI)
    assume h: "arg1 c \<noteq> 0 \<and> views_in_range vars (arg1 c) \<and>
         arg2 c \<noteq> 0 \<and> views_in_range vars (arg2 c)"
    let ?t = "[(arg1 c, if - 1 \<in> set (indexes computation ! nat (arg3 c))
                       then kReadWriteAccess else kWriteAccess),
              (arg2 c, kReadAccess)]"
    from h have "\<forall>(s, access)\<in>set ?t. s = 0 \<or> views_in_range vars s" by simp
    from classified_views[OF this] obtain attr where
      a: "classified vars ?t = Inr attr"
      "set (submatrices_read attr) = set (read_views ?t)"
      "set (submatrices_written attr) = set (written_views ?t)" by blast
    have "set (submatrices_written attr) = {arg1 c}"
      using a(3) h by (simp add: written_views_def)
    moreover have "arg2 c \<in> set (submatrices_read attr)"
      using a(2) h by (simp add: read_views_def)
    moreover have "arg1 c \<in> set (submatrices_read attr) \<longleftrightarrow>
                 - 1 \<in> set (indexes computation ! nat (arg3 c)) \<or> arg1 c = arg2 c"
      using a(2) h by (auto simp: read_views_def)
    ultimately show "\<exists>attr. attributes_of_command nnet fl computation vars c = Inr attr \<and>
              set (submatrices_written attr) = {arg1 c} \<and>
              arg2 c \<in> set (submatrices_read attr) \<and>
              (arg1 c \<in> set (submatrices_read attr) \<longleftrightarrow>
                 - 1 \<in> set (indexes computation ! nat (arg3 c)) \<or> arg1 c = arg2 c)"
      using 1 a(1) by simp
  qed
  from 1 2 3 show ?thesis by blast
qed

theorem copy_rows_classification_witness:
  "attributes_of_command example_io_nnet example_flags (example_rows_computation [0, 1])
     (variables example_inplace_analyzer) example_copy_rows =
     Inr \<lparr>variables_read = [0], variables_written = [1], submatrices_read = [1],
          submatrices_written = [2], matrices_read = [1], matrices_written = [2],
          has_side_effects = False\<rparr> \<and>
   attributes_of_command example_io_nnet example_flags (example_rows_computation [0, - 1])
     (variables example_inplace_analyzer) example_copy_rows =
     Inr \<lparr>variables_read = [0, 1], variables_written = [1], submatrices_read = [1, 2],
          submatrices_written = [2], matrices_read = [1, 2], matrices_written = [2],
          has_side_effects = False\<rparr>"
proof -
  let ?V = "variables example_inplace_analyzer"
  let ?comp = "example_rows_computation [0, 1]"
  have ty: "command_type example_copy_rows = kCopyRows" by (simp add: example_copy_rows_def)
  have rng: "in_range (arg3 example_copy_rows) (length (indexes ?comp))"
    by (simp add: example_copy_rows_def example_rows_computation_def in_range_def)
  have h: "- 1 \<notin> set (indexes ?comp ! nat (arg3 example_copy_rows)) \<and>
      1 < length (indexes ?comp ! nat (arg3 example_copy_rows))"
    by (simp add: example_copy_rows_def example_rows_computation_def)
  have c': "?comp\<lparr>indexes := (indexes ?comp)
      [nat (arg3 example_copy_rows) := (indexes ?comp ! nat (arg3 example_copy_rows))[1 := - 1]]\<rparr>
      = example_rows_computation [0, - 1]"
    by (simp add: example_copy_rows_def example_rows_computation_def)
  have w: "classified ?V [(2, kWriteAccess), (1, kReadAccess)] =
     Inr \<lparr>variables_read = [0], variables_written = [1], submatrices_read = [1],
          submatrices_written = [2], matrices_read = [1], matrices_written = [2],
          has_side_effects = False\<rparr>"
    by code_simp
  have rw: "classified ?V [(2, kReadWriteAccess), (1, kReadAccess)] =
     Inr \<lparr>variables_read = [0, 1], variables_written = [1], submatrices_read = [1, 2],
          submatrices_written = [2], matrices_read = [1, 2], matrices_written = [2],
          has_side_effects = False\<rparr>"
    by code_simp
  from copy_rows_classification[OF ty rng, of example_io_nnet example_flags ?V 1] h
  have "attributes_of_command example_io_nnet example_flags ?comp ?V example_copy_rows =
          classified ?V [(arg1 example_copy_rows, kWriteAccess), (arg2 example_copy_rows, kReadAccess)] \<and>
        attributes_of_command example_io_nnet example_flags (example_rows_computation [0, - 1])
          ?V example_copy_rows =
          classified ?V [(arg1 example_copy_rows, kReadWriteAccess),
                         (arg2 example_copy_rows, kReadAccess)]"
    unfolding c' by blast
  then show ?thesis
    using w rw by (simp add: example_copy_rows_def)
qed


section \<open>Access classifier: scatter-rows-multi\<close>

lemma indexes_multi_scan_set_eq:
  assumes "cur = - 1 \<or> cur \<in> set out"
  shows "set (indexes_multi_scan pairs cur out) = set out \<union> (fst ` set pairs - {- 1})"
  using assms
proof (induction pairs arbitrary: cur out)
  case Nil
  then show ?case by simp
next
  case (Cons p rest)
  show ?case
  proof (cases "fst p \<noteq> - 1 \<and> fst p \<noteq> cur")
    case True
    have "fst p = - 1 \<or> fst p \<in> set (out @ [fst p])" by simp
    from Cons.IH[OF this] True show ?thesis by (auto simp: Let_def)
  next
    case False
    from Cons.IH[OF Cons.prems] False Cons.prems show ?thesis by (auto simp: Let_def)
  qed
qed

lemma IndexesMultiToSubmatrixIndexes_props:
  "sorted (IndexesMultiToSubmatrixIndexes pairs) \<and>
   distinct (IndexesMultiToSubmatrixIndexes pairs) \<and>
   set (IndexesMultiToSubmatrixIndexes pairs) = fst ` set pairs - {- 1}"
  by (simp add: IndexesMultiToSubmatrixIndexes_def SortAndUniq_sorted SortAndUniq_distinct
        SortAndUniq_set indexes_multi_scan_set_eq)

lemma for_loop_map: "for_loop (map f xs) body s = for_loop xs (\<lambda>x. body (f x)) s"
  by (induction xs arbitrary: s) (auto split: sum.splits)

lemma classified_Cons:
  "classified vars ((s, access) # map (\<lambda>d. (d, access')) dests) =
     and_then (and_then (RecordAccessForSubmatrix vars s access empty_attributes)
                 (for_loop dests (\<lambda>d. RecordAccessForSubmatrix vars d access')))
       (\<lambda>attr. Inr (sort_attributes attr))"
  by (simp add: classified_def and_then_def for_loop_map split: sum.splits)

lemma views_map_rw:
  "written_views (map (\<lambda>d. (d, kReadWriteAccess)) ds) = filter (\<lambda>d. d \<noteq> 0) ds"
  "read_views (map (\<lambda>d. (d, kReadWriteAccess)) ds) = filter (\<lambda>d. d \<noteq> 0) ds"
  by (induction ds) (simp_all add: written_views_def read_views_def)

lemma views_Cons_read:
  "written_views ((s, kReadAccess) # t) = written_views t"
  "read_views ((s, kReadAccess) # t) = (if s \<noteq> 0 then s # read_views t else read_views t)"
  by (simp_all add: written_views_def read_views_def)

text \<open>
  C4. The attributes of a \<open>kAddToRowsMulti\<close> or \<open>kCopyToRowsMulti\<close> command are those of
  a read of its source followed by a read-write of every view that
  \<open>IndexesMultiToSubmatrixIndexes\<close> gives for the pair list; that list is sorted,
  free of repetitions, and holds exactly the view indexes of the pairs other than
  \<open>-1\<close>. With these views in range, the views written are the destinations (the null
  view apart), and each of them is also read.
\<close>

theorem scatter_rows_classification:
  assumes "scatter_command c"
    and "in_range (arg2 c) (length (indexes_multi computation))"
  shows "attributes_of_command nnet fl computation vars c =
           classified vars
             ((arg1 c, kReadAccess) #
              map (\<lambda>d. (d, kReadWriteAccess))
                (IndexesMultiToSubmatrixIndexes (indexes_multi computation ! nat (arg2 c)))) \<and>
         sorted (IndexesMultiToSubmatrixIndexes (indexes_multi computation ! nat (arg2 c))) \<and>
         distinct (IndexesMultiToSubmatrixIndexes (indexes_multi computation ! nat (arg2 c))) \<and>
         set (IndexesMultiToSubmatrixIndexes (indexes_multi computation ! nat (arg2 c))) =
           fst ` set (indexes_multi computation ! nat (arg2 c)) - {- 1} \<and>
         ((\<forall>s\<in>insert (arg1 c) (fst ` set (indexes_multi computation ! nat (arg2 c)) - {- 1}).
             s = 0 \<or> views_in_range vars s) \<longrightarrow>
           (\<exists>attr. attributes_of_command nnet fl computation vars c = Inr attr \<and>
              set (submatrices_written attr) =
                fst ` set (indexes_multi computation ! nat (arg2 c)) - {- 1, 0} \<and>
              set (submatrices_read attr) =
                insert (arg1 c) (fst ` set (indexes_multi computation ! nat (arg2 c))) - {- 1, 0}))"
proof -
  let ?pairs = "indexes_multi computation ! nat (arg2 c)"
  let ?dests = "IndexesMultiToSubmatrixIndexes ?pairs"
  let ?t = "(arg1 c, kReadAccess) # map (\<lambda>d. (d, kReadWriteAccess)) ?dests"
  note p = IndexesMultiToSubmatrixIndexes_props[of ?pairs]
  have sw: "attributes_switch nnet fl computation vars c =
      and_then (RecordAccessForSubmatrix vars (arg1 c) kReadAccess empty_attributes)
        (for_loop ?dests (\<lambda>d. RecordAccessForSubmatrix vars d kReadWriteAccess))"
  proof (cases "command_type c = kAddToRowsMulti")
    case True
    then show ?thesis using assms(2) by (simp add: attributes_switch_def Let_def)
  next
    case False
    with assms(1) have "command_type c = kCopyToRowsMulti" by (simp add: scatter_command_def)
    then show ?thesis using assms(2) by (simp add: attributes_switch_def Let_def)
  qed
  have 1: "attributes_of_command nnet fl computation vars c = classified vars ?t"
    unfolding attributes_of_command_def sw classified_Cons ..
  have 2: "\<exists>attr. attributes_of_command nnet fl computation vars c = Inr attr \<and>
              set (submatrices_written attr) = fst ` set ?pairs - {- 1, 0} \<and>
              set (submatrices_read attr) = insert (arg1 c) (fst ` set ?pairs) - {- 1, 0}"
    if h: "\<forall>s\<in>insert (arg1 c) (fst ` set ?pairs - {- 1}). s = 0 \<or> views_in_range vars s"
  proof -
    have "\<forall>(s, access)\<in>set ?t. s = 0 \<or> views_in_range vars s"
      using h p by auto
    from classified_views[OF this] obtain attr where
      a: "classified vars ?t = Inr attr"
      "set (submatrices_read attr) = set (read_views ?t)"
      "set (submatrices_written attr) = set (written_views ?t)" by blast
    have w: "set (written_views ?t) = set ?dests - {0}"
      by (auto simp: views_map_rw views_Cons_read)
    have r: "set (read_views ?t) = insert (arg1 c) (set ?dests) - {0}"
      by (auto simp: views_map_rw views_Cons_read)
    have "arg1 c \<noteq> - 1"
    proof
      assume "arg1 c = - 1"
      with h have "views_in_range vars (- 1)" by auto
      then show False by (simp add: views_in_range_def in_range_def)
    qed
    with a w r p 1 show ?thesis by auto
  qed
  from 1 2 p show ?thesis by blast
qed

theorem scatter_rows_classification_witness:
  "attributes_of_command example_io_nnet example_flags
     (example_multi_computation (example_multi_command kCopyToRowsMulti 0))
     (variables example_inplace_analyzer) (example_multi_command kCopyToRowsMulti 0) =
     Inr \<lparr>variables_read = [0, 1], variables_written = [1], submatrices_read = [1, 2],
          submatrices_written = [2], matrices_read = [1, 2], matrices_written = [2],
          has_side_effects = False\<rparr> \<and>
   IndexesMultiToSubmatrixIndexes [(2, 0), (2, 0)] = [2] \<and>
   attributes_of_command example_io_nnet example_flags
     (example_multi_computation (example_multi_command kAddToRowsMulti 1))
     (variables example_inplace_analyzer) (example_multi_command kAddToRowsMulti 1) =
     Inr \<lparr>variables_read = [0], variables_written = [], submatrices_read = [1],
          submatrices_written = [], matrices_read = [1], matrices_written = [],
          has_side_effects = False\<rparr>"
proof -
  let ?V = "variables example_inplace_analyzer"
  let ?c0 = "example_multi_command kCopyToRowsMulti 0"
  let ?c1 = "example_multi_command kAddToRowsMulti 1"
  have sc: "scatter_command ?c0" "scatter_command ?c1"
    by (simp_all add: scatter_command_def example_multi_command_def)
  have rng: "in_range (arg2 ?c0) (length (indexes_multi (example_multi_computation ?c0)))"
    "in_range (arg2 ?c1) (length (indexes_multi (example_multi_computation ?c1)))"
    by (simp_all add: example_multi_computation_def example_multi_command_def in_range_def)
  have d0: "IndexesMultiToSubmatrixIndexes [(2, 0), (2, 0)] = [2]" by code_simp
  have d1: "IndexesMultiToSubmatrixIndexes [(- 1, - 1), (- 1, - 1)] = []" by code_simp
  have p0: "indexes_multi (example_multi_computation ?c0) ! nat (arg2 ?c0) = [(2, 0), (2, 0)]"
    by (simp add: example_multi_computation_def example_multi_command_def)
  have p1: "indexes_multi (example_multi_computation ?c1) ! nat (arg2 ?c1) = [(- 1, - 1), (- 1, - 1)]"
    by (simp add: example_multi_computation_def example_multi_command_def)
  have e0: "classified ?V [(1, kReadAccess), (2, kReadWriteAccess)] =
     Inr \<lparr>variables_read = [0, 1], variables_written = [1], submatrices_read = [1, 2],
          submatrices_written = [2], matrices_read = [1, 2], matrices_written = [2],
          has_side_effects = False\<rparr>"
    by code_simp
  have e1: "classified ?V [(1, kReadAccess)] =
     Inr \<lparr>variables_read = [0], variables_written = [], submatrices_read = [1],
          submatrices_written = [], matrices_read = [1], matrices_written = [],
          has_side_effects = False\<rparr>"
    by code_simp
  from scatter_rows_classification[OF sc(1) rng(1), of example_io_nnet example_flags ?V]
  have a: "attributes_of_command example_io_nnet example_flags (example_multi_computation ?c0)
      ?V ?c0 = classified ?V [(1, kReadAccess), (2, kReadWriteAccess)]"
    unfolding p0 d0 by (simp add: example_multi_command_def)
  from scatter_rows_classification[OF sc(2) rng(2), of example_io_nnet example_flags ?V]
  have b: "attributes_of_command example_io_nnet example_flags (example_multi_computation ?c1)
      ?V ?c1 = classified ?V [(1, kReadAccess)]"
    unfolding p1 d1 by (simp add: example_multi_command_def)
  from a b e0 e1 d0 show ?thesis by simp
qed

section \<open>Ordering check\<close>

lemma count_markers_fold:
  "fold (\<lambda>c (num_markers, marker_location).
             if command_type (cmds ! c) = kNoOperationMarker
             then (num_markers + 1, int c)
             else (num_markers, marker_location))
       [0..<n] (0, 0)
   = (int (length (marker_positions cmds n)),
      if marker_positions cmds n = [] then 0 else int (last (marker_positions cmds n)))"
  by (induction n) (auto simp: marker_positions_def)

lemma count_markers_eq:
  "count_markers cmds = (int (length (marker_positions cmds (length cmds))),
      if marker_positions cmds (length cmds) = [] then 0
      else int (last (marker_positions cmds (length cmds))))"
  unfolding count_markers_def by (rule count_markers_fold)

lemma marker_positions_single:
  "length (marker_positions cmds n) = 1 \<and> last (marker_positions cmds n) = m \<longleftrightarrow>
     m < n \<and> command_type (cmds ! m) = kNoOperationMarker \<and>
     (\<forall>c<n. command_type (cmds ! c) = kNoOperationMarker \<longrightarrow> c = m)"
proof -
  let ?ms = "marker_positions cmds n"
  have d: "distinct ?ms" by (simp add: marker_positions_def)
  have st: "set ?ms = {c. c < n \<and> command_type (cmds ! c) = kNoOperationMarker}"
    by (auto simp: marker_positions_def)
  show ?thesis
  proof
    assume a: "length ?ms = 1 \<and> last ?ms = m"
    then obtain x where x: "?ms = [x]" by (cases ?ms) auto
    with a have "?ms = [m]" by simp
    with st have "{c. c < n \<and> command_type (cmds ! c) = kNoOperationMarker} = {m}"
      by simp
    then show "m < n \<and> command_type (cmds ! m) = kNoOperationMarker \<and>
     (\<forall>c<n. command_type (cmds ! c) = kNoOperationMarker \<longrightarrow> c = m)" by auto
  next
    assume b: "m < n \<and> command_type (cmds ! m) = kNoOperationMarker \<and>
     (\<forall>c<n. command_type (cmds ! c) = kNoOperationMarker \<longrightarrow> c = m)"
    then have "set ?ms = {m}" using st by auto
    then have "card (set ?ms) = 1" by simp
    with distinct_card[OF d] have "length ?ms = 1" by simp
    then obtain x where "?ms = [x]" by (cases ?ms) auto
    with \<open>set ?ms = {m}\<close> have "?ms = [m]" by simp
    then show "length ?ms = 1 \<and> last ?ms = m" by simp
  qed
qed

text \<open>
  C5. \<open>CheckComputationOrder\<close> passes exactly when the program has one pass marker
  and no other, no Backprop at an index before it and no Propagate or StoreStats at
  an index after it; in every other case it ends in a \<open>KALDI_ERR\<close>.
\<close>

theorem computation_order_check:
  "(CheckComputationOrder computation = Inr () \<longleftrightarrow>
     (\<exists>m<length (commands computation).
        command_type (commands computation ! m) = kNoOperationMarker \<and>
        (\<forall>c<length (commands computation).
           command_type (commands computation ! c) = kNoOperationMarker \<longrightarrow> c = m) \<and>
        (\<forall>c<m. command_type (commands computation ! c) \<noteq> kBackprop) \<and>
        (\<forall>c. m < c \<and> c < length (commands computation) \<longrightarrow>
           command_type (commands computation ! c) \<noteq> kPropagate \<and>
           command_type (commands computation ! c) \<noteq> kStoreStats))) \<and>
   (CheckComputationOrder computation = Inr () \<or>
     (\<exists>msg. CheckComputationOrder computation = Inl (KaldiErr msg)))"
proof -
  let ?cmds = "commands computation"
  let ?n = "length ?cmds"
  let ?ms = "marker_positions ?cmds ?n"
  let ?loc = "if ?ms = [] then 0 else int (last ?ms)"
  have co: "CheckComputationOrder computation =
     (if int (length ?ms) \<noteq> 1 then Inl (KaldiErr ''Expected exactly one kNoOperationMarker marker.'')
      else for_loop [0..<?n] (order_body ?cmds ?loc) ())"
    by (simp add: CheckComputationOrder_def Let_def count_markers_eq)
  have "for_loop [0..<?n] (order_body ?cmds ?loc) () = Inr () \<or>
     (\<exists>msg. for_loop [0..<?n] (order_body ?cmds ?loc) () = Inl (KaldiErr msg))"
    by (rule for_loop_unit_cases) (simp add: order_body_def Let_def first_err_cases)
  then have second: "CheckComputationOrder computation = Inr () \<or>
     (\<exists>msg. CheckComputationOrder computation = Inl (KaldiErr msg))"
    unfolding co by simp
  have body: "order_body ?cmds (int m) c () = Inr () \<longleftrightarrow>
      \<not> (c \<noteq> m \<and> command_type (?cmds ! c) = kNoOperationMarker) \<and>
      \<not> (c < m \<and> command_type (?cmds ! c) = kBackprop) \<and>
      \<not> (m < c \<and> command_type (?cmds ! c) = kPropagate) \<and>
      \<not> (m < c \<and> command_type (?cmds ! c) = kStoreStats)" for m c
    by (simp add: order_body_def Let_def)
  have first: "CheckComputationOrder computation = Inr () \<longleftrightarrow>
     (\<exists>m<?n. command_type (?cmds ! m) = kNoOperationMarker \<and>
        (\<forall>c<?n. command_type (?cmds ! c) = kNoOperationMarker \<longrightarrow> c = m) \<and>
        (\<forall>c<m. command_type (?cmds ! c) \<noteq> kBackprop) \<and>
        (\<forall>c. m < c \<and> c < ?n \<longrightarrow>
           command_type (?cmds ! c) \<noteq> kPropagate \<and> command_type (?cmds ! c) \<noteq> kStoreStats))"
    (is "?L \<longleftrightarrow> ?R")
  proof
    assume l: ?L
    from l have one: "length ?ms = 1" unfolding co by (simp split: if_splits)
    then have ne: "?ms \<noteq> []" by auto
    define m where "m = last ?ms"
    from one have "length ?ms = 1 \<and> last ?ms = m" by (simp add: m_def)
    then have mk: "m < ?n \<and> command_type (?cmds ! m) = kNoOperationMarker \<and>
       (\<forall>c<?n. command_type (?cmds ! c) = kNoOperationMarker \<longrightarrow> c = m)"
      using marker_positions_single[of ?cmds ?n m] by blast
    from l one ne have "for_loop [0..<?n] (order_body ?cmds (int m)) () = Inr ()"
      unfolding co m_def by simp
    then have all: "\<forall>c<?n. order_body ?cmds (int m) c () = Inr ()"
      by (simp add: for_loop_unit)
    have "command_type (?cmds ! c) \<noteq> kBackprop" if "c < m" for c
    proof -
      from that mk have "c < ?n" by simp
      with all have "order_body ?cmds (int m) c () = Inr ()" by simp
      with that show ?thesis by (simp add: body)
    qed
    moreover have "command_type (?cmds ! c) \<noteq> kPropagate \<and>
        command_type (?cmds ! c) \<noteq> kStoreStats" if "m < c \<and> c < ?n" for c
    proof -
      from that all have "order_body ?cmds (int m) c () = Inr ()" by simp
      with that show ?thesis by (simp add: body)
    qed
    ultimately show ?R using mk by (intro exI[of _ m]) simp
  next
    assume ?R
    then obtain m where mk: "m < ?n \<and> command_type (?cmds ! m) = kNoOperationMarker \<and>
       (\<forall>c<?n. command_type (?cmds ! c) = kNoOperationMarker \<longrightarrow> c = m)"
      and bp: "\<forall>c<m. command_type (?cmds ! c) \<noteq> kBackprop"
      and pr: "\<forall>c. m < c \<and> c < ?n \<longrightarrow>
           command_type (?cmds ! c) \<noteq> kPropagate \<and> command_type (?cmds ! c) \<noteq> kStoreStats"
      by blast
    from mk have one: "length ?ms = 1 \<and> last ?ms = m"
      using marker_positions_single[of ?cmds ?n m] by blast
    then have ne: "?ms \<noteq> []" by auto
    have "order_body ?cmds (int m) c () = Inr ()" if "c < ?n" for c
    proof (cases "c = m")
      case True
      with mk show ?thesis by (simp add: body)
    next
      case False
      with mk that have "command_type (?cmds ! c) \<noteq> kNoOperationMarker" by blast
      with bp pr that show ?thesis by (simp add: body)
    qed
    then have "\<forall>c<?n. order_body ?cmds (int m) c () = Inr ()" by simp
    then have "for_loop [0..<?n] (order_body ?cmds (int m)) () = Inr ()"
      by (simp add: for_loop_unit)
    with one ne show ?L unfolding co by simp
  qed
  from first second show ?thesis by blast
qed

theorem computation_order_check_witness:
  "CheckComputationOrder
     (example_program [kPropagate, kStoreStats, kNoOperationMarker, kBackprop]) = Inr () \<and>
   (\<exists>msg. CheckComputationOrder
     (example_program [kPropagate, kNoOperationMarker, kNoOperationMarker, kBackprop])
       = Inl (KaldiErr msg)) \<and>
   (\<exists>msg. CheckComputationOrder (example_program [kBackprop, kNoOperationMarker])
       = Inl (KaldiErr msg))"
proof -
  let ?good = "example_program [kPropagate, kStoreStats, kNoOperationMarker, kBackprop]"
  let ?two = "example_program [kPropagate, kNoOperationMarker, kNoOperationMarker, kBackprop]"
  let ?early = "example_program [kBackprop, kNoOperationMarker]"
  have "\<exists>m<length (commands ?good).
        command_type (commands ?good ! m) = kNoOperationMarker \<and>
        (\<forall>c<length (commands ?good).
           command_type (commands ?good ! c) = kNoOperationMarker \<longrightarrow> c = m) \<and>
        (\<forall>c<m. command_type (commands ?good ! c) \<noteq> kBackprop) \<and>
        (\<forall>c. m < c \<and> c < length (commands ?good) \<longrightarrow>
           command_type (commands ?good ! c) \<noteq> kPropagate \<and>
           command_type (commands ?good ! c) \<noteq> kStoreStats)"
  proof (intro exI[of _ 2] conjI)
    show "2 < length (commands ?good)" by (simp add: example_program_def)
    show "command_type (commands ?good ! 2) = kNoOperationMarker"
      by (simp add: example_program_def)
    show "\<forall>c<length (commands ?good).
           command_type (commands ?good ! c) = kNoOperationMarker \<longrightarrow> c = 2"
      by (simp add: example_program_def All_less_Suc)
    show "\<forall>c<2. command_type (commands ?good ! c) \<noteq> kBackprop"
      by (simp add: example_program_def All_less_Suc numeral_2_eq_2)
    show "\<forall>c. 2 < c \<and> c < length (commands ?good) \<longrightarrow>
           command_type (commands ?good ! c) \<noteq> kPropagate \<and>
           command_type (commands ?good ! c) \<noteq> kStoreStats"
    proof (intro allI impI)
      fix c :: nat assume "2 < c \<and> c < length (commands ?good)"
      then have "c = 3" by (simp add: example_program_def)
      then show "command_type (commands ?good ! c) \<noteq> kPropagate \<and>
           command_type (commands ?good ! c) \<noteq> kStoreStats"
        by (simp add: example_program_def)
    qed
  qed
  with computation_order_check[of ?good] have a: "CheckComputationOrder ?good = Inr ()"
    by blast
  have "CheckComputationOrder ?two \<noteq> Inr ()" by code_simp
  with computation_order_check[of ?two]
  have b: "\<exists>msg. CheckComputationOrder ?two = Inl (KaldiErr msg)" by blast
  have "CheckComputationOrder ?early \<noteq> Inr ()" by code_simp
  with computation_order_check[of ?early]
  have c: "\<exists>msg. CheckComputationOrder ?early = Inl (KaldiErr msg)" by blast
  from a b c show ?thesis by blast
qed

section \<open>Buffer lifecycle check\<close>

lemma check_matrix_allocation_cases:
  "check_matrix_allocation m acc = Inr () \<or> (\<exists>msg. check_matrix_allocation m acc = Inl (KaldiErr msg))"
  by (simp add: check_matrix_allocation_def first_err_cases)

lemma check_matrix_ok:
  "snd (check_matrix m acc p) = Inr () \<longleftrightarrow> lifecycle_ok acc"
  by (auto simp: check_matrix_def check_matrix_allocation_def check_matrix_deallocation_def
        lifecycle_ok_def split: sum.splits if_splits)

lemma check_matrix_cases:
  "snd (check_matrix m acc p) = Inr () \<or> (\<exists>msg. snd (check_matrix m acc p) = Inl (KaldiErr msg))"
  using check_matrix_allocation_cases[of m acc]
  by (auto simp: check_matrix_def check_matrix_deallocation_def split: sum.splits)

lemma check_matrix_process:
  "fst (check_matrix m acc p) =
     (if lifecycle_ok acc \<and> unused_input acc \<and> \<not> computation_checker_warned_unused_input p
      then p\<lparr>warnings := warnings p @
                 [''Matrix m'' @ string_of_int (int m) @ '' is never accessed. '' @
                  ''Allowing because it is an input (un-needed input or '' @
                  ''derivative?)  Will warn only once.''],
              computation_checker_warned_unused_input := True\<rparr>
      else p)"
  by (auto simp: check_matrix_def check_matrix_allocation_def check_matrix_deallocation_def
        lifecycle_ok_def unused_input_def split: sum.splits if_splits)

lemma check_matrices_ok:
  "snd (check_matrices ms ma p) = Inr () \<longleftrightarrow> (\<forall>m\<in>set ms. lifecycle_ok (ma ! m))"
proof (induction ms arbitrary: p)
  case Nil
  then show ?case by simp
next
  case (Cons m rest)
  obtain p' r where c: "check_matrix m (ma ! m) p = (p', r)" by (cases "check_matrix m (ma ! m) p")
  show ?case
  proof (cases r)
    case (Inl e)
    with c check_matrix_ok[of m "ma ! m" p] show ?thesis by simp
  next
    case (Inr u)
    with c check_matrix_ok[of m "ma ! m" p] Cons.IH[of p'] show ?thesis by simp
  qed
qed

lemma check_matrices_cases:
  "snd (check_matrices ms ma p) = Inr () \<or>
   (\<exists>msg. snd (check_matrices ms ma p) = Inl (KaldiErr msg))"
proof (induction ms arbitrary: p)
  case Nil
  then show ?case by simp
next
  case (Cons m rest)
  obtain p' r where c: "check_matrix m (ma ! m) p = (p', r)" by (cases "check_matrix m (ma ! m) p")
  show ?case
  proof (cases r)
    case (Inl e)
    with c check_matrix_cases[of m "ma ! m" p] show ?thesis by simp
  next
    case (Inr u)
    with c Cons.IH[of p'] show ?thesis by simp
  qed
qed

lemma warned_at_most_once_step:
  "warned_at_most_once p (fst (check_matrix m acc p))"
  by (simp add: check_matrix_process warned_at_most_once_def)

lemma warned_at_most_once_trans:
  assumes "warned_at_most_once p p'" and "warned_at_most_once p' p''"
  shows "warned_at_most_once p p''"
  using assms by (auto simp: warned_at_most_once_def)

lemma check_matrices_process:
  "warned_at_most_once p (fst (check_matrices ms ma p))"
proof (induction ms arbitrary: p)
  case Nil
  then show ?case by (simp add: warned_at_most_once_def)
next
  case (Cons m rest)
  obtain p' r where c: "check_matrix m (ma ! m) p = (p', r)" by (cases "check_matrix m (ma ! m) p")
  from warned_at_most_once_step[of p m "ma ! m"] c have s: "warned_at_most_once p p'" by simp
  show ?case
  proof (cases r)
    case (Inl e)
    with c s show ?thesis by simp
  next
    case (Inr u)
    with c warned_at_most_once_trans[OF s Cons.IH[of p']] show ?thesis by simp
  qed
qed

lemma check_matrices_warns:
  assumes "snd (check_matrices ms ma p) = Inr ()"
  shows "fst (check_matrices ms ma p) \<noteq> p \<longleftrightarrow>
           \<not> computation_checker_warned_unused_input p \<and> (\<exists>m\<in>set ms. unused_input (ma ! m))"
  using assms
proof (induction ms arbitrary: p)
  case Nil
  then show ?case by simp
next
  case (Cons m rest)
  obtain p' r where c: "check_matrix m (ma ! m) p = (p', r)" by (cases "check_matrix m (ma ! m) p")
  from Cons.prems c obtain u where r: "r = Inr u" by (cases r) auto
  from Cons.prems c r have rest: "snd (check_matrices rest ma p') = Inr ()" by simp
  from Cons.prems check_matrices_ok[of "m # rest" ma p] have ok: "lifecycle_ok (ma ! m)" by simp
  have p': "p' = (if unused_input (ma ! m) \<and> \<not> computation_checker_warned_unused_input p
      then p\<lparr>warnings := warnings p @
                 [''Matrix m'' @ string_of_int (int m) @ '' is never accessed. '' @
                  ''Allowing because it is an input (un-needed input or '' @
                  ''derivative?)  Will warn only once.''],
              computation_checker_warned_unused_input := True\<rparr>
      else p)"
    using check_matrix_process[of m "ma ! m" p] c ok by simp
  have res: "fst (check_matrices (m # rest) ma p) = fst (check_matrices rest ma p')"
    using c r by simp
  show ?case
  proof (cases "unused_input (ma ! m) \<and> \<not> computation_checker_warned_unused_input p")
    case True
    with p' have fl: "computation_checker_warned_unused_input p'" by simp
    with True have ne: "p' \<noteq> p" by auto
    from Cons.IH[OF rest] fl have "fst (check_matrices rest ma p') = p'" by blast
    with res ne True show ?thesis by auto
  next
    case False
    with p' have "p' = p" by simp
    with Cons.IH[OF rest] res False show ?thesis by auto
  qed
qed

text \<open>
  C6. \<open>CheckComputationMatrixAccesses\<close> passes exactly when every buffer but the null
  one meets the lifecycle conditions: an input has no allocation command; any other
  buffer has one, has at least one access, and its first access is not before it; an
  output has no deallocation command; any other buffer has one, and either its last
  access is before it or, with no access at all, the buffer is an input. Every failure
  is a \<open>KALDI_ERR\<close>. An unused input costs at most one warning per process: the
  process changes only by one warning, given when the flag was not yet set.
\<close>

theorem matrix_lifecycle_check:
  "(snd (CheckComputationMatrixAccesses a p) = Inr () \<longleftrightarrow>
      (\<forall>m. 1 \<le> m \<and> m < length (matrix_accesses a) \<longrightarrow> lifecycle_ok (matrix_accesses a ! m))) \<and>
   (snd (CheckComputationMatrixAccesses a p) = Inr () \<or>
      (\<exists>msg. snd (CheckComputationMatrixAccesses a p) = Inl (KaldiErr msg))) \<and>
   warned_at_most_once p (fst (CheckComputationMatrixAccesses a p)) \<and>
   (snd (CheckComputationMatrixAccesses a p) = Inr () \<longrightarrow>
      (fst (CheckComputationMatrixAccesses a p) \<noteq> p \<longleftrightarrow>
         \<not> computation_checker_warned_unused_input p \<and>
         (\<exists>m. 1 \<le> m \<and> m < length (matrix_accesses a) \<and> unused_input (matrix_accesses a ! m))))"
proof -
  let ?ms = "[1..<length (matrix_accesses a)]"
  have s: "(\<forall>m\<in>set ?ms. P m) \<longleftrightarrow> (\<forall>m. 1 \<le> m \<and> m < length (matrix_accesses a) \<longrightarrow> P m)" for P
    by auto
  have e: "(\<exists>m\<in>set ?ms. P m) \<longleftrightarrow> (\<exists>m. 1 \<le> m \<and> m < length (matrix_accesses a) \<and> P m)" for P
    by auto
  show ?thesis
    unfolding CheckComputationMatrixAccesses_def
    using check_matrices_ok[of ?ms "matrix_accesses a" p]
      check_matrices_cases[of ?ms "matrix_accesses a" p]
      check_matrices_process[of p ?ms "matrix_accesses a"]
      check_matrices_warns[of ?ms "matrix_accesses a" p]
    unfolding s e by blast
qed

theorem matrix_lifecycle_check_witness:
  "CheckComputationMatrixAccesses example_analyzer fresh_process =
     (\<lparr>computation_checker_warned_unused_input = True,
       warnings = [''Matrix m1 is never accessed. Allowing because it is an input (un-needed input or derivative?)  Will warn only once.'']\<rparr>,
      Inr ()) \<and>
   lifecycle_ok (matrix_accesses example_analyzer ! 1) \<and>
   lifecycle_ok (matrix_accesses example_analyzer ! 2) \<and>
   warned_at_most_once fresh_process
     (fst (CheckComputationMatrixAccesses example_analyzer fresh_process)) \<and>
   (\<exists>msg. snd (CheckComputationMatrixAccesses
      (example_analyzer\<lparr>matrix_accesses :=
         (matrix_accesses example_analyzer)[2 := (matrix_accesses example_analyzer ! 2)
            \<lparr>allocate_command := 2\<rparr>]\<rparr>) fresh_process) = Inl (KaldiErr msg))"
proof -
  let ?bad = "example_analyzer\<lparr>matrix_accesses :=
         (matrix_accesses example_analyzer)[2 := (matrix_accesses example_analyzer ! 2)
            \<lparr>allocate_command := 2\<rparr>]\<rparr>"
  have e: "CheckComputationMatrixAccesses example_analyzer fresh_process =
     (\<lparr>computation_checker_warned_unused_input = True,
       warnings = [''Matrix m1 is never accessed. Allowing because it is an input (un-needed input or derivative?)  Will warn only once.'']\<rparr>,
      Inr ())"
    by code_simp
  then have ok: "snd (CheckComputationMatrixAccesses example_analyzer fresh_process) = Inr ()"
    by simp
  note t = matrix_lifecycle_check[of example_analyzer fresh_process]
  from t ok have all: "\<forall>m. 1 \<le> m \<and> m < length (matrix_accesses example_analyzer) \<longrightarrow>
      lifecycle_ok (matrix_accesses example_analyzer ! m)" by blast
  have l: "length (matrix_accesses example_analyzer) = 4"
    by (simp add: example_analyzer_def)
  from all l have a1: "lifecycle_ok (matrix_accesses example_analyzer ! 1)"
    and a2: "lifecycle_ok (matrix_accesses example_analyzer ! 2)" by simp_all
  from t have w: "warned_at_most_once fresh_process
     (fst (CheckComputationMatrixAccesses example_analyzer fresh_process))" by blast
  have "\<not> lifecycle_ok (matrix_accesses ?bad ! 2)"
    by (simp add: lifecycle_ok_def example_analyzer_def)
  moreover have "1 \<le> (2::nat) \<and> 2 < length (matrix_accesses ?bad)"
    by (simp add: example_analyzer_def)
  ultimately have "\<not> (\<forall>m. 1 \<le> m \<and> m < length (matrix_accesses ?bad) \<longrightarrow>
      lifecycle_ok (matrix_accesses ?bad ! m))" by blast
  with matrix_lifecycle_check[of ?bad fresh_process]
  have b: "\<exists>msg. snd (CheckComputationMatrixAccesses ?bad fresh_process) = Inl (KaldiErr msg)"
    by blast
  from e a1 a2 w b show ?thesis by blast
qed

section \<open>Rewrite-safety check\<close>

lemma first_pure_read_from_eq:
  "first_pure_read_from acc k =
     (if \<forall>x\<in>set acc. access_type x \<noteq> kReadAccess then - 1
      else k + int (length (takeWhile (\<lambda>x. access_type x \<noteq> kReadAccess) acc)))"
  by (induction acc arbitrary: k) auto

lemma read_then_modified_Nil [simp]: "\<not> read_then_modified []"
  by (simp add: read_then_modified_def)

lemma read_then_modified_Cons:
  "read_then_modified (x # xs) \<longleftrightarrow>
     (if access_type x = kReadAccess then \<exists>y\<in>set xs. access_type y \<noteq> kReadAccess
      else read_then_modified xs)"
proof (cases "access_type x = kReadAccess")
  case True
  have "read_then_modified (x # xs) \<longleftrightarrow> (\<exists>y\<in>set xs. access_type y \<noteq> kReadAccess)"
  proof
    assume "read_then_modified (x # xs)"
    then obtain i j where ij: "i < j" "j < length (x # xs)" "access_type ((x # xs) ! j) \<noteq> kReadAccess"
      unfolding read_then_modified_def by blast
    then obtain j' where j': "j = Suc j'" by (cases j) auto
    with ij have "xs ! j' \<in> set xs" "access_type (xs ! j') \<noteq> kReadAccess" by auto
    then show "\<exists>y\<in>set xs. access_type y \<noteq> kReadAccess" by blast
  next
    assume "\<exists>y\<in>set xs. access_type y \<noteq> kReadAccess"
    then obtain j' where "j' < length xs" "access_type (xs ! j') \<noteq> kReadAccess"
      by (auto simp: in_set_conv_nth)
    with True have "0 < Suc j' \<and> Suc j' < length (x # xs) \<and>
        access_type ((x # xs) ! 0) = kReadAccess \<and> access_type ((x # xs) ! Suc j') \<noteq> kReadAccess"
      by simp
    then show "read_then_modified (x # xs)" unfolding read_then_modified_def by blast
  qed
  with True show ?thesis by simp
next
  case False
  have "read_then_modified (x # xs) \<longleftrightarrow> read_then_modified xs"
  proof
    assume "read_then_modified (x # xs)"
    then obtain i j where ij: "i < j" "j < length (x # xs)"
      "access_type ((x # xs) ! i) = kReadAccess" "access_type ((x # xs) ! j) \<noteq> kReadAccess"
      unfolding read_then_modified_def by blast
    from ij False obtain i' where i': "i = Suc i'" by (cases i) auto
    from ij obtain j' where j': "j = Suc j'" by (cases j) auto
    from ij i' j' have "i' < j' \<and> j' < length xs \<and> access_type (xs ! i') = kReadAccess \<and>
        access_type (xs ! j') \<noteq> kReadAccess" by simp
    then show "read_then_modified xs" unfolding read_then_modified_def by blast
  next
    assume "read_then_modified xs"
    then obtain i j where "i < j" "j < length xs"
      "access_type (xs ! i) = kReadAccess" "access_type (xs ! j) \<noteq> kReadAccess"
      unfolding read_then_modified_def by blast
    then have "Suc i < Suc j \<and> Suc j < length (x # xs) \<and>
        access_type ((x # xs) ! Suc i) = kReadAccess \<and> access_type ((x # xs) ! Suc j) \<noteq> kReadAccess"
      by simp
    then show "read_then_modified (x # xs)" unfolding read_then_modified_def by blast
  qed
  with False show ?thesis by simp
qed

lemma read_then_modified_iff:
  "read_then_modified acc \<longleftrightarrow>
     (\<exists>y\<in>set (tl (dropWhile (\<lambda>x. access_type x \<noteq> kReadAccess) acc)). access_type y \<noteq> kReadAccess)"
  by (induction acc) (simp_all add: read_then_modified_Cons)

lemma rewrite_scan:
  "(let first_pure_read = first_pure_read_from acc 0
    in if first_pure_read \<noteq> - 1
       then for_loop (drop (nat (first_pure_read + 1)) acc)
              (\<lambda>x u. if access_type x \<noteq> kReadAccess then Inl (KaldiErr msg) else Inr ()) ()
       else Inr ())
   = (if read_then_modified acc then Inl (KaldiErr msg) else Inr ())"
proof (cases "\<forall>x\<in>set acc. access_type x \<noteq> kReadAccess")
  case True
  have "\<not> read_then_modified acc"
  proof
    assume "read_then_modified acc"
    then obtain i j where "i < j" "j < length acc" "access_type (acc ! i) = kReadAccess"
      unfolding read_then_modified_def by blast
    then have "acc ! i \<in> set acc" "access_type (acc ! i) = kReadAccess" by simp_all
    with True show False by blast
  qed
  with True show ?thesis by (simp add: first_pure_read_from_eq)
next
  case False
  let ?n = "length (takeWhile (\<lambda>x. access_type x \<noteq> kReadAccess) acc)"
  let ?rest = "tl (dropWhile (\<lambda>x. access_type x \<noteq> kReadAccess) acc)"
  let ?body = "\<lambda>x (u::unit). if access_type x \<noteq> kReadAccess then Inl (KaldiErr msg) else Inr ()"
  have f: "first_pure_read_from acc 0 = int ?n" using False by (simp add: first_pure_read_from_eq)
  have d: "drop (nat (int ?n + 1)) acc = ?rest"
    by (simp add: nat_add_distrib dropWhile_eq_drop drop_Suc tl_drop)
  have l: "for_loop xs ?body () = (if \<exists>y\<in>set xs. access_type y \<noteq> kReadAccess
                                  then Inl (KaldiErr msg) else Inr ())" for xs
    by (induction xs) auto
  show ?thesis
    unfolding Let_def f d l by (simp add: read_then_modified_iff)
qed

lemma rewrite_variable_eq:
  assumes "v < length (variable_to_matrix (variables a))"
    and "in_range (variable_to_matrix (variables a) ! v) (length (matrix_accesses a))"
  shows "(rewrite_variable a v () = Inr () \<longleftrightarrow> rewrite_ok a v) \<and>
         (rewrite_variable a v () = Inr () \<or> (\<exists>msg. rewrite_variable a v () = Inl (KaldiErr msg)))"
proof -
  have g: "GetMatrixForVariable (variables a) (int v) = Inr (variable_to_matrix (variables a) ! v)"
    using assms(1) by (simp add: GetMatrixForVariable_def in_range_def)
  note scan = rewrite_scan[unfolded Let_def]
  show ?thesis
    unfolding rewrite_variable_def g and_then_def rewrite_ok_def Let_def
    using assms(2)
    by (simp add: scan)
qed

lemma ComputeVariableAccesses_length:
  assumes "ComputeVariableAccesses vars attrs = Inr va"
  shows "length va = nat (num_variables vars)"
proof -
  from assms have l: "for_loop [0..<length attrs] (variable_access_command attrs)
             (replicate (nat (num_variables vars)) []) = Inr va"
    by (simp add: ComputeVariableAccesses_def split: if_splits)
  have inner: "length t' = length t" if "variable_access_command attrs c t = Inr t'" for c t t'
  proof -
    from that obtain js body where b: "for_loop js body t = Inr t'"
      and body: "body = variable_access_body (int c) (attrs ! c)"
      by (auto simp: variable_access_command_def Let_def split: if_splits)
    show ?thesis
      by (rule for_loop_preserves[OF b])
         (auto simp: body variable_access_body_def split: if_splits)
  qed
  have "length va = length (replicate (nat (num_variables vars)) ([] :: Access list))"
    by (rule for_loop_preserves[OF l]) (rule inner)
  then show ?thesis by simp
qed

lemma ComputeMatrixAccesses_length:
  assumes "ComputeMatrixAccesses nnet computation vars attrs = Inr ma"
  shows "length ma = length (matrices computation)"
proof -
  let ?n = "length (matrices computation)"
  from assms obtain ma1 where
    l1: "for_loop [0..<length attrs] (matrix_access_command computation attrs)
           (replicate ?n empty_matrix_accesses) = Inr ma1" and
    l2: "for_loop (input_output_info computation) (input_output_body nnet ?n) ma1 = Inr ma"
    by (auto simp: ComputeMatrixAccesses_def Let_def and_then_Inr)
  have alloc: "length t' = length t" if "matrix_alloc_body c cmd t = Inr t'" for c cmd t t'
    using that by (auto simp: matrix_alloc_body_def Let_def split: if_splits)
  have inner: "length t' = length t"
    if "matrix_access_command computation attrs c t = Inr t'" for c t t'
  proof -
    from that obtain t1 where b: "for_loop (SortAndUniq (matrices_read (attrs ! c) @
          matrices_written (attrs ! c))) (matrix_access_body (int c) (attrs ! c)) t = Inr t1"
      and a: "matrix_alloc_body (int c) (commands computation ! c) t1 = Inr t'"
      by (auto simp: matrix_access_command_def Let_def and_then_Inr split: if_splits)
    have "length t1 = length t"
      by (rule for_loop_preserves[OF b])
         (auto simp: matrix_access_body_def split: if_splits)
    with alloc[OF a] show ?thesis by simp
  qed
  have flag: "length t' = length t"
    if "set_flag_input m t = Inr t' \<or> set_flag_output m t = Inr t'" for m t t'
    using that by (auto simp: set_flag_input_def set_flag_output_def split: if_splits)
  have io: "length t' = length t" if "input_output_body nnet ?n e t = Inr t'" for e t t'
    using that flag
    by (auto simp: input_output_body_def Let_def and_then_Inr split: if_splits) metis+
  have "length ma1 = length (replicate ?n empty_matrix_accesses)"
    by (rule for_loop_preserves[OF l1]) (rule inner)
  moreover have "length ma = length ma1"
    by (rule for_loop_preserves[OF l2]) (rule io)
  ultimately show ?thesis by simp
qed

lemma ComputeVariableToMatrix_Inr:
  assumes "ComputeVariableToMatrix computation v2 = Inr v3"
  shows "length (variable_to_matrix v3) = nat (num_variables v3) \<and>
         num_variables v3 = num_variables v2 \<and>
         set (variable_to_matrix v3)
           \<subseteq> (\<lambda>s. matrix_index (submatrices computation ! s)) ` {1..<length (variable_ranges v2)}"
proof -
  let ?M = "(\<lambda>s. matrix_index (submatrices computation ! s)) ` {1..<length (variable_ranges v2)}"
  let ?N = "nat (num_variables v2)"
  let ?w = "v2\<lparr>variable_to_matrix := replicate ?N (- 1)\<rparr>"
  let ?J = "\<lambda>t. length (variable_to_matrix t) = ?N \<and> num_variables t = num_variables v2 \<and>
                set (variable_to_matrix t) \<subseteq> insert (- 1) ?M"
  from assms have l: "for_loop [1..<length (variable_ranges v2)] (v2m_submatrix computation) ?w = Inr v3"
    and c: "count_list (variable_to_matrix v3) (- 1) = 0"
    by (auto simp: ComputeVariableToMatrix_def and_then_Inr split: if_splits)
  have body: "?J t'" if m: "m \<in> ?M" and j: "?J t" and b: "v2m_body m x t = Inr t'" for m x t t'
  proof -
    from b have "t' = t \<or> (\<exists>q. t' = t\<lparr>variable_to_matrix := (variable_to_matrix t)[q := m]\<rparr>)"
      by (auto simp: v2m_body_def Let_def split: if_splits)
    then show ?thesis
    proof
      assume "t' = t"
      with j show ?thesis by simp
    next
      assume "\<exists>q. t' = t\<lparr>variable_to_matrix := (variable_to_matrix t)[q := m]\<rparr>"
      then obtain q where q: "t' = t\<lparr>variable_to_matrix := (variable_to_matrix t)[q := m]\<rparr>"
        by blast
      have "set ((variable_to_matrix t)[q := m]) \<subseteq> insert m (set (variable_to_matrix t))"
        by (rule set_update_subset_insert)
      with j m q show ?thesis by auto
    qed
  qed
  have outer: "?J t'"
    if i: "i \<in> set [1..<length (variable_ranges v2)]" and j: "?J t"
      and b: "v2m_submatrix computation i t = Inr t'" for i t t'
  proof -
    let ?m = "matrix_index (submatrices computation ! i)"
    from i have m: "?m \<in> ?M" by auto
    from b obtain js where lo: "for_loop js (v2m_body ?m) t = Inr t'"
      by (auto simp: v2m_submatrix_def Let_def split: if_splits)
    show ?thesis
    proof (rule for_loop_invariant[OF lo, where I = ?J])
      show "?J t" by (rule j)
    next
      fix x u u'
      assume "?J u" and "v2m_body ?m x u = Inr u'"
      then show "?J u'" by (rule body[OF m])
    qed
  qed
  have j3: "?J v3"
  proof (rule for_loop_invariant[OF l, where I = ?J])
    have "set (replicate ?N (- 1 :: int)) \<subseteq> {- 1}" by (simp add: set_replicate_conv_if)
    then show "?J ?w" by auto
  next
    fix i t t'
    assume "i \<in> set [1..<length (variable_ranges v2)]" and "?J t"
      and "v2m_submatrix computation i t = Inr t'"
    then show "?J t'" by (rule outer)
  qed
  from c have "- 1 \<notin> set (variable_to_matrix v3)"
    by (simp add: count_list_0_iff)
  with j3 have "set (variable_to_matrix v3) \<subseteq> ?M" by blast
  with j3 show ?thesis by simp
qed

lemma Init_variable_to_matrix:
  assumes "Init computation v0 = Inr vars"
  shows "length (variable_to_matrix vars) = nat (num_variables vars) \<and>
         (\<forall>x\<in>set (variable_to_matrix vars). in_range x (length (matrices computation)))"
proof -
  from assms obtain v1 v2 v3 where
    1: "ComputeSplitPoints computation v0 = Inr v1" and
    2: "ComputeVariableRanges computation v1 = Inr v2" and
    3: "ComputeVariableToMatrix computation v2 = Inr v3" and
    4: "ComputeSubmatrixInfo computation v3 = Inr vars"
    by (auto simp: Init_def and_then_Inr split: if_splits)
  let ?k = "length (submatrices computation)"
  note sp = ComputeSplitPoints_Inr[OF 1]
  note pts = ComputeSplitPoints_points[OF 1]
  note vr = ComputeVariableRanges_Inr[OF 2]
  note vm = ComputeVariableToMatrix_Inr[OF 3]
  have same: "(variable_to_matrix vars, num_variables vars) = (variable_to_matrix v3, num_variables v3)"
  proof -
    from 4 have l: "for_loop [1..<?k] (info_body computation)
        (v3\<lparr>submatrix_to_matrix := resize ?k 0 (submatrix_to_matrix v3),
            submatrix_is_whole_matrix := resize ?k False (submatrix_is_whole_matrix v3)\<rparr>) = Inr vars"
      by (simp add: ComputeSubmatrixInfo_def Let_def)
    have "(variable_to_matrix vars, num_variables vars) =
        (variable_to_matrix (v3\<lparr>submatrix_to_matrix := resize ?k 0 (submatrix_to_matrix v3),
            submatrix_is_whole_matrix := resize ?k False (submatrix_is_whole_matrix v3)\<rparr>),
         num_variables (v3\<lparr>submatrix_to_matrix := resize ?k 0 (submatrix_to_matrix v3),
            submatrix_is_whole_matrix := resize ?k False (submatrix_is_whole_matrix v3)\<rparr>))"
      by (rule for_loop_preserves[OF l]) (auto simp: info_body_def)
    then show ?thesis by simp
  qed
  have rng: "in_range x (length (matrices computation))" if "x \<in> set (variable_to_matrix vars)" for x
  proof -
    from that same vm vr obtain s where s: "s \<in> {1..<?k}"
      and x: "x = matrix_index (submatrices computation ! s)" by auto
    from s pts have "view_points_pushed computation (split_points v1) s" by simp
    with sp x show ?thesis by (simp add: view_points_pushed_def)
  qed
  from same vm rng show ?thesis by simp
qed

lemma Analyzer_Init_variables_have_matrix:
  assumes "Analyzer_Init nnet fl computation a0 = Inr a"
  shows "variables_have_matrix a"
proof -
  from assms obtain vars attrs va ma where
    i: "Init computation (variables a0) = Inr vars" and
    v: "ComputeVariableAccesses vars attrs = Inr va" and
    m: "ComputeMatrixAccesses nnet computation vars attrs = Inr ma" and
    a: "a = \<lparr>variables = vars, command_attributes = attrs, variable_accesses = va,
              matrix_accesses = ma\<rparr>"
    by (auto simp: Analyzer_Init_def and_then_Inr)
  note vm = Init_variable_to_matrix[OF i]
  note lv = ComputeVariableAccesses_length[OF v]
  note lm = ComputeMatrixAccesses_length[OF m]
  have "v < length (variable_to_matrix vars) \<and>
        in_range (variable_to_matrix vars ! v) (length ma)" if "v < length va" for v
  proof -
    from that lv vm have l: "v < length (variable_to_matrix vars)" by simp
    then have "variable_to_matrix vars ! v \<in> set (variable_to_matrix vars)" by simp
    with vm lm l show ?thesis by simp
  qed
  then show ?thesis
    unfolding variables_have_matrix_def a by simp
qed

lemma Check_other_checks:
  assumes "other_checks_pass nnet fl computation p p' a"
  shows "Check config nnet fl computation p =
           (if check_rewrite config then (p', CheckComputationRewrite a) else (p', Inr ()))"
  using assms by (simp add: Check_def other_checks_pass_def)

lemma Check_passes:
  "Check config nnet fl computation p = (p', Inr ()) \<longleftrightarrow>
     (\<exists>a. other_checks_pass nnet fl computation p p' a \<and>
          (check_rewrite config \<longrightarrow> CheckComputationRewrite a = Inr ()))"
  by (auto simp: Check_def other_checks_pass_def split: sum.splits prod.splits)

text \<open>
  C7. On an analysis in which every variable has an owning matrix,
  \<open>CheckComputationRewrite\<close> passes exactly when no variable has an empty access
  list while its matrix is not an input, and no variable has a pure read followed at
  any later position by a write or read-write; every failure is a \<open>KALDI_ERR\<close>.
  \<open>Check\<close> runs it only when \<open>check_rewrite\<close> is set. With the flag off, \<open>Check\<close> passes
  exactly when its other checks pass, whatever \<open>CheckComputationRewrite\<close> would
  answer; with the flag on, exactly when they pass and \<open>CheckComputationRewrite\<close>
  passes on the analysis of the program. When the other checks pass, the result of
  \<open>Check\<close> is that of \<open>CheckComputationRewrite\<close> if the flag is on and success if it
  is off. So \<open>Check\<close> is \<open>Check\<close> with the flag off, followed, if that passed and the
  flag is on, by \<open>CheckComputationRewrite\<close>; and in an analysis that \<open>Analyzer::Init\<close>
  returns every variable has an owning matrix.
\<close>

theorem rewrite_safety_check:
  "(variables_have_matrix a \<longrightarrow>
      (CheckComputationRewrite a = Inr () \<longleftrightarrow>
         (\<forall>v<length (variable_accesses a). rewrite_ok a v)) \<and>
      (CheckComputationRewrite a = Inr () \<or>
         (\<exists>msg. CheckComputationRewrite a = Inl (KaldiErr msg)))) \<and>
   (\<not> check_rewrite config \<longrightarrow>
      (Check config nnet fl computation p = (p', Inr ()) \<longleftrightarrow>
         (\<exists>a'. other_checks_pass nnet fl computation p p' a'))) \<and>
   (check_rewrite config \<longrightarrow>
      (Check config nnet fl computation p = (p', Inr ()) \<longleftrightarrow>
         (\<exists>a'. other_checks_pass nnet fl computation p p' a' \<and>
               CheckComputationRewrite a' = Inr ()))) \<and>
   (other_checks_pass nnet fl computation p p' a \<longrightarrow>
      Check config nnet fl computation p =
        (if check_rewrite config then (p', CheckComputationRewrite a) else (p', Inr ()))) \<and>
   Check config nnet fl computation p =
     (case Check (config\<lparr>check_rewrite := False\<rparr>) nnet fl computation p of
        (p', Inl e) \<Rightarrow> (p', Inl e)
      | (p', Inr u) \<Rightarrow>
          if check_rewrite config
          then (case Analyzer_Init nnet fl computation empty_analyzer of
                  Inl e \<Rightarrow> (p', Inl e)
                | Inr a' \<Rightarrow> (p', CheckComputationRewrite a'))
          else (p', Inr ())) \<and>
   (Analyzer_Init nnet fl computation empty_analyzer = Inr a \<longrightarrow> variables_have_matrix a)"
proof -
  have A: "(CheckComputationRewrite a = Inr () \<longleftrightarrow>
         (\<forall>v<length (variable_accesses a). rewrite_ok a v)) \<and>
      (CheckComputationRewrite a = Inr () \<or>
         (\<exists>msg. CheckComputationRewrite a = Inl (KaldiErr msg)))"
    if wf: "variables_have_matrix a"
  proof -
    let ?n = "length (variable_accesses a)"
    have v: "(rewrite_variable a v () = Inr () \<longleftrightarrow> rewrite_ok a v) \<and>
         (rewrite_variable a v () = Inr () \<or> (\<exists>msg. rewrite_variable a v () = Inl (KaldiErr msg)))"
      if "v < ?n" for v
      using wf that by (intro rewrite_variable_eq) (simp_all add: variables_have_matrix_def)
    have "CheckComputationRewrite a = Inr () \<longleftrightarrow> (\<forall>v\<in>set [0..<?n]. rewrite_variable a v () = Inr ())"
      unfolding CheckComputationRewrite_def by (rule for_loop_unit)
    with v have 1: "CheckComputationRewrite a = Inr () \<longleftrightarrow> (\<forall>v<?n. rewrite_ok a v)" by auto
    have 2: "CheckComputationRewrite a = Inr () \<or>
         (\<exists>msg. CheckComputationRewrite a = Inl (KaldiErr msg))"
      unfolding CheckComputationRewrite_def
    proof (rule for_loop_unit_cases)
      fix i assume "i \<in> set [0..<?n]"
      then have "i < ?n" by simp
      from v[OF this] show "rewrite_variable a i () = Inr () \<or>
          (\<exists>msg. rewrite_variable a i () = Inl (KaldiErr msg))" by blast
    qed
    from 1 2 show ?thesis by blast
  qed
  have B: "Check config nnet fl computation p =
     (case Check (config\<lparr>check_rewrite := False\<rparr>) nnet fl computation p of
        (p', Inl e) \<Rightarrow> (p', Inl e)
      | (p', Inr u) \<Rightarrow>
          if check_rewrite config
          then (case Analyzer_Init nnet fl computation empty_analyzer of
                  Inl e \<Rightarrow> (p', Inl e)
                | Inr a' \<Rightarrow> (p', CheckComputationRewrite a'))
          else (p', Inr ()))"
    by (simp add: Check_def split: sum.splits prod.splits)
  have C: "variables_have_matrix a"
    if "Analyzer_Init nnet fl computation empty_analyzer = Inr a"
    using that by (rule Analyzer_Init_variables_have_matrix)
  have D: "Check config nnet fl computation p = (p', Inr ()) \<longleftrightarrow>
         (\<exists>a'. other_checks_pass nnet fl computation p p' a')"
    if "\<not> check_rewrite config"
    using that Check_passes[of config nnet fl computation p p'] by simp
  have E: "Check config nnet fl computation p = (p', Inr ()) \<longleftrightarrow>
         (\<exists>a'. other_checks_pass nnet fl computation p p' a' \<and>
               CheckComputationRewrite a' = Inr ())"
    if "check_rewrite config"
    using that Check_passes[of config nnet fl computation p p'] by simp
  have F: "Check config nnet fl computation p =
        (if check_rewrite config then (p', CheckComputationRewrite a) else (p', Inr ()))"
    if "other_checks_pass nnet fl computation p p' a"
    using that by (rule Check_other_checks)
  from A B C D E F show ?thesis by blast
qed

theorem rewrite_safety_check_witness:
  "variables_have_matrix example_inplace_analyzer \<and>
   Analyzer_Init example_io_nnet example_flags (example_copy_program [example_add_back])
     empty_analyzer = Inr example_inplace_analyzer \<and>
   read_then_modified (variable_accesses example_inplace_analyzer ! 0) \<and>
   \<not> read_then_modified (variable_accesses example_inplace_analyzer ! 1) \<and>
   (\<exists>msg. CheckComputationRewrite example_inplace_analyzer = Inl (KaldiErr msg)) \<and>
   Check \<lparr>check_rewrite = False\<rparr> example_io_nnet example_flags
     (example_copy_program [example_add_back]) fresh_process = (fresh_process, Inr ()) \<and>
   (\<exists>msg. Check \<lparr>check_rewrite = True\<rparr> example_io_nnet example_flags
     (example_copy_program [example_add_back]) fresh_process = (fresh_process, Inl (KaldiErr msg))) \<and>
   Check \<lparr>check_rewrite = True\<rparr> example_io_nnet example_flags
     (example_copy_program []) fresh_process = (fresh_process, Inr ())"
proof -
  let ?A = example_inplace_analyzer
  let ?prog = "example_copy_program [example_add_back]"
  have wf: "variables_have_matrix ?A"
    by (simp add: variables_have_matrix_def example_inplace_analyzer_def All_less_Suc
          numeral_2_eq_2 in_range_def)
  have init: "Analyzer_Init example_io_nnet example_flags ?prog empty_analyzer = Inr ?A"
    by code_simp
  have "0 < (1::nat) \<and> 1 < length (variable_accesses ?A ! 0) \<and>
      access_type (variable_accesses ?A ! 0 ! 0) = kReadAccess \<and>
      access_type (variable_accesses ?A ! 0 ! 1) \<noteq> kReadAccess"
    by (simp add: example_inplace_analyzer_def)
  then have rm: "read_then_modified (variable_accesses ?A ! 0)"
    unfolding read_then_modified_def by blast
  have nrm: "\<not> read_then_modified (variable_accesses ?A ! 1)"
    by (simp add: example_inplace_analyzer_def read_then_modified_Cons)
  have others: "other_checks_pass example_io_nnet example_flags ?prog
      fresh_process fresh_process ?A"
    unfolding other_checks_pass_def by (intro conjI; code_simp)
  from rewrite_safety_check[of ?A "\<lparr>check_rewrite = False\<rparr>" example_io_nnet
      example_flags ?prog fresh_process fresh_process] others
  have off: "Check \<lparr>check_rewrite = False\<rparr> example_io_nnet example_flags ?prog fresh_process
      = (fresh_process, Inr ())"
    by simp
  have good: "Check \<lparr>check_rewrite = True\<rparr> example_io_nnet example_flags
     (example_copy_program []) fresh_process = (fresh_process, Inr ())"
    by code_simp
  note t = rewrite_safety_check[of ?A "\<lparr>check_rewrite = True\<rparr>" example_io_nnet
      example_flags ?prog fresh_process fresh_process]
  from rm have "\<not> rewrite_ok ?A 0" by (simp add: rewrite_ok_def)
  moreover have "0 < length (variable_accesses ?A)" by (simp add: example_inplace_analyzer_def)
  ultimately have "\<not> (\<forall>v<length (variable_accesses ?A). rewrite_ok ?A v)" by blast
  with t wf have err: "\<exists>msg. CheckComputationRewrite ?A = Inl (KaldiErr msg)" by blast
  from t others
  have "Check \<lparr>check_rewrite = True\<rparr> example_io_nnet example_flags ?prog fresh_process
      = (fresh_process, CheckComputationRewrite ?A)"
    by simp
  with err have on: "\<exists>msg. Check \<lparr>check_rewrite = True\<rparr> example_io_nnet example_flags
     ?prog fresh_process = (fresh_process, Inl (KaldiErr msg))" by auto
  from wf init rm nrm err off on good show ?thesis by blast
qed

section \<open>Bounds check: duplicates in scatter commands\<close>

lemma find_duplicate_sorted:
  "sorted xs \<Longrightarrow> find_duplicate xs = Inr () \<longleftrightarrow> distinct (filter not_sentinel xs)"
proof (induction xs rule: find_duplicate.induct)
  case (1 x y rest)
  show ?case
  proof (cases "x = y \<and> fst x \<noteq> - 1")
    case True
    then have "x = y" "fst y \<noteq> - 1" by blast+
    then show ?thesis by (simp add: not_sentinel_def)
  next
    case False
    from 1(2) have s: "sorted (y # rest)" by simp
    have "x \<notin> set (y # rest)" if "x \<noteq> y"
    proof
      assume "x \<in> set (y # rest)"
      with that have "x \<in> set rest" by simp
      with 1(2) have "x \<le> y" "y \<le> x" by auto
      with that show False by simp
    qed
    then have "distinct (filter not_sentinel (x # y # rest)) \<longleftrightarrow>
               distinct (filter not_sentinel (y # rest))"
      using False by (cases "x = y") (auto simp: not_sentinel_def)
    moreover have "find_duplicate (x # y # rest) = find_duplicate (y # rest)"
      using False by auto
    ultimately show ?thesis using 1(1)[OF False s] by simp
  qed
qed simp_all

lemma find_duplicate_cases:
  "find_duplicate xs = Inr () \<or>
   (\<exists>p\<in>set xs. not_sentinel p \<and> find_duplicate xs = Inl (KaldiErr (duplicate_message p)))"
  by (induction xs rule: find_duplicate.induct)
     (auto simp: not_sentinel_def duplicate_message_def)

lemma distinct_filter_sort:
  "distinct (filter P (sort xs)) \<longleftrightarrow> distinct (filter P xs)"
  by (simp add: filter_sort)

lemma check_multi_pair_ok:
  "check_multi_pair computation c p () = Inr () \<longleftrightarrow>
     (if fst p = - 1 then snd p = - 1
      else 1 \<le> fst p \<and> fst p < int (length (submatrices computation)) \<and>
           0 \<le> snd p \<and> snd p < num_rows (submatrices computation ! nat (fst p)) \<and>
           fst p \<noteq> arg1 c \<and>
           num_cols (submatrices computation ! nat (fst p)) =
             num_cols (submatrices computation ! nat (arg1 c)))"
  by (auto simp: check_multi_pair_def Let_def)

lemma check_multi_eq:
  "check_multi computation c =
     (if multi_prechecked computation c
      then if scatter_command c
           then find_duplicate (sort (indexes_multi computation ! nat (arg2 c)))
           else Inr ()
      else check_multi computation c)"
proof (cases "multi_prechecked computation c")
  case False
  then show ?thesis by simp
next
  case True
  let ?pairs = "indexes_multi computation ! nat (arg2 c)"
  from True have a: "1 \<le> arg1 c" "arg1 c < int (length (submatrices computation))"
    "in_range (arg2 c) (length (indexes_multi computation))"
    "int (length ?pairs) = num_rows (submatrices computation ! nat (arg1 c))"
    by (simp_all add: multi_prechecked_def Let_def)
  from True have "\<forall>p\<in>set ?pairs. check_multi_pair computation c p () = Inr ()"
    unfolding multi_prechecked_def Let_def check_multi_pair_ok by blast
  then have l: "for_loop ?pairs (check_multi_pair computation c) () = Inr ()"
    by (simp add: for_loop_unit)
  have "check_multi computation c =
      (if scatter_command c then find_duplicate (sort ?pairs) else Inr ())"
    unfolding check_multi_def Let_def scatter_command_def using a l
    by (simp add: and_then_def)
  with True show ?thesis by simp
qed

lemma check_multi_Inr:
  assumes "check_multi computation c = Inr ()"
    and "in_range (arg2 c) (length (indexes_multi computation))"
  shows "scatter_command c \<longrightarrow>
           find_duplicate (sort (indexes_multi computation ! nat (arg2 c))) = Inr ()"
  using assms
  unfolding check_multi_def Let_def scatter_command_def
  by (auto simp: and_then_def split: sum.splits if_splits)

lemma check_multi_pair_cases:
  "check_multi_pair computation c p () = Inr () \<or>
   (\<exists>msg. check_multi_pair computation c p () = Inl (KaldiErr msg))"
  unfolding check_multi_pair_def Let_def
  by (cases "fst p = - 1") (simp_all add: first_err_cases)

lemma check_multi_cases:
  "check_multi computation c = Inr () \<or> (\<exists>msg. check_multi computation c = Inl (KaldiErr msg))"
proof -
  let ?pairs = "indexes_multi computation ! nat (arg2 c)"
  have l: "for_loop ?pairs (check_multi_pair computation c) () = Inr () \<or>
      (\<exists>msg. for_loop ?pairs (check_multi_pair computation c) () = Inl (KaldiErr msg))"
    by (rule for_loop_unit_cases) (rule check_multi_pair_cases)
  have f: "find_duplicate (sort ?pairs) = Inr () \<or>
      (\<exists>msg. find_duplicate (sort ?pairs) = Inl (KaldiErr msg))"
    using find_duplicate_cases[of "sort ?pairs"] by blast
  show ?thesis
    unfolding check_multi_def Let_def
    using l f by (auto simp: and_then_def split: sum.splits)
qed

text \<open>
  C8. The check of a scatter command (\<open>kAddToRowsMulti\<close>, \<open>kCopyToRowsMulti\<close>) whose
  pair list holds a pair other than the sentinel twice ends in a \<open>KALDI_ERR\<close>, and a
  program with such a command does not pass \<open>CheckComputationIndexes\<close>. For a \<open>*-multi\<close> command that meets the earlier
  conditions of the check, a scatter command passes exactly when its pairs other than
  the sentinel are distinct, the error names a repeated pair, repeated sentinels do
  not count, and a gather command passes whatever its pairs repeat.
\<close>

theorem scatter_duplicates_rejected:
  "(scatter_command c \<and>
    in_range (arg2 c) (length (indexes_multi computation)) \<and>
    \<not> distinct (filter not_sentinel (indexes_multi computation ! nat (arg2 c)))
      \<longrightarrow> (\<exists>msg. check_command nnet fl computation c = Inl (KaldiErr msg))) \<and>
   (scatter_command c \<and> c \<in> set (commands computation) \<and>
    in_range (arg2 c) (length (indexes_multi computation)) \<and>
    \<not> distinct (filter not_sentinel (indexes_multi computation ! nat (arg2 c)))
      \<longrightarrow> CheckComputationIndexes nnet fl computation \<noteq> Inr ()) \<and>
   ((scatter_command c \<or> gather_command c) \<and> multi_prechecked computation c
      \<longrightarrow>
        (check_command nnet fl computation c = Inr () \<longleftrightarrow>
           (scatter_command c \<longrightarrow>
              distinct (filter not_sentinel (indexes_multi computation ! nat (arg2 c))))) \<and>
        (check_command nnet fl computation c = Inr () \<or>
           (\<exists>p\<in>set (indexes_multi computation ! nat (arg2 c)). not_sentinel p \<and>
              check_command nnet fl computation c = Inl (KaldiErr (duplicate_message p)))))"
proof -
  let ?pairs = "indexes_multi computation ! nat (arg2 c)"
  have cm: "check_command nnet fl computation c = check_multi computation c"
    if "scatter_command c \<or> gather_command c"
    using that by (auto simp: check_command_def scatter_command_def gather_command_def)
  have fd: "find_duplicate (sort ?pairs) = Inr () \<longleftrightarrow> distinct (filter not_sentinel ?pairs)"
    using find_duplicate_sorted[of "sort ?pairs"] by (simp add: distinct_filter_sort)
  have A: "CheckComputationIndexes nnet fl computation \<noteq> Inr ()"
    if sc: "scatter_command c" and mem: "c \<in> set (commands computation)"
      and rng: "in_range (arg2 c) (length (indexes_multi computation))"
      and dup: "\<not> distinct (filter not_sentinel ?pairs)"
  proof
    assume "CheckComputationIndexes nnet fl computation = Inr ()"
    then have "\<forall>x\<in>set (commands computation). check_command nnet fl computation x = Inr ()"
      unfolding CheckComputationIndexes_def by (simp add: for_loop_unit)
    with mem have "check_command nnet fl computation c = Inr ()" by blast
    with cm sc have "check_multi computation c = Inr ()" by simp
    from check_multi_Inr[OF this rng] sc fd dup show False by simp
  qed
  have B: "(check_command nnet fl computation c = Inr () \<longleftrightarrow>
           (scatter_command c \<longrightarrow> distinct (filter not_sentinel ?pairs))) \<and>
        (check_command nnet fl computation c = Inr () \<or>
           (\<exists>p\<in>set ?pairs. not_sentinel p \<and>
              check_command nnet fl computation c = Inl (KaldiErr (duplicate_message p))))"
    if ty: "scatter_command c \<or> gather_command c" and pre: "multi_prechecked computation c"
  proof -
    have e: "check_command nnet fl computation c =
        (if scatter_command c then find_duplicate (sort ?pairs) else Inr ())"
      using cm[OF ty] check_multi_eq[of computation c] pre by simp
    have "find_duplicate (sort ?pairs) = Inr () \<or>
       (\<exists>p\<in>set ?pairs. not_sentinel p \<and>
          find_duplicate (sort ?pairs) = Inl (KaldiErr (duplicate_message p)))"
      using find_duplicate_cases[of "sort ?pairs"] by simp
    with e fd show ?thesis by auto
  qed
  have C: "\<exists>msg. check_command nnet fl computation c = Inl (KaldiErr msg)"
    if sc: "scatter_command c"
      and rng: "in_range (arg2 c) (length (indexes_multi computation))"
      and dup: "\<not> distinct (filter not_sentinel ?pairs)"
  proof -
    have "check_multi computation c \<noteq> Inr ()"
      using check_multi_Inr[OF _ rng] sc fd dup by auto
    with check_multi_cases[of computation c] cm sc show ?thesis by simp
  qed
  from A B C show ?thesis by blast
qed

theorem scatter_duplicates_rejected_witness:
  "(\<exists>p. CheckComputationIndexes example_io_nnet example_flags
      (example_multi_computation (example_multi_command kAddToRowsMulti 0))
        = Inl (KaldiErr (duplicate_message p))) \<and>
   check_command example_io_nnet example_flags
      (example_multi_computation (example_multi_command kCopyToRowsMulti 1))
      (example_multi_command kCopyToRowsMulti 1) = Inr () \<and>
   check_command example_io_nnet example_flags
      (example_multi_computation (example_multi_command kCopyToRowsMulti 2))
      (example_multi_command kCopyToRowsMulti 2) = Inr () \<and>
   check_command example_io_nnet example_flags
      (example_multi_computation (example_multi_command kAddRowsMulti 0))
      (example_multi_command kAddRowsMulti 0) = Inr ()"
proof -
  let ?dup = "example_multi_command kAddToRowsMulti 0"
  let ?sen = "example_multi_command kCopyToRowsMulti 1"
  let ?ok = "example_multi_command kCopyToRowsMulti 2"
  let ?gat = "example_multi_command kAddRowsMulti 0"
  have pre: "multi_prechecked (example_multi_computation c) (example_multi_command ty t)"
    if "t = 0 \<or> t = 1 \<or> t = 2" for c ty t
    using that
    by (auto simp: multi_prechecked_def example_multi_computation_def example_multi_command_def
          example_copy_program_def in_range_def)
  have d0: "\<not> distinct (filter not_sentinel
      (indexes_multi (example_multi_computation ?dup) ! nat (arg2 ?dup)))"
    by (simp add: example_multi_computation_def example_multi_command_def not_sentinel_def)
  have d1: "distinct (filter not_sentinel
      (indexes_multi (example_multi_computation ?sen) ! nat (arg2 ?sen)))"
    by (simp add: example_multi_computation_def example_multi_command_def not_sentinel_def)
  have d2: "distinct (filter not_sentinel
      (indexes_multi (example_multi_computation ?ok) ! nat (arg2 ?ok)))"
    by (simp add: example_multi_computation_def example_multi_command_def not_sentinel_def)
  have sc: "scatter_command ?dup" "scatter_command ?sen" "scatter_command ?ok"
    "gather_command ?gat" "\<not> scatter_command ?gat"
    by (simp_all add: scatter_command_def gather_command_def example_multi_command_def)
  have mem: "?dup \<in> set (commands (example_multi_computation ?dup))"
    by (simp add: example_multi_computation_def example_copy_program_def)
  have rng: "in_range (arg2 ?dup) (length (indexes_multi (example_multi_computation ?dup)))"
    by (simp add: example_multi_computation_def example_multi_command_def in_range_def)
  note t0 = scatter_duplicates_rejected[of ?dup "example_multi_computation ?dup"
      example_io_nnet example_flags]
  from t0 sc(1) mem rng d0
  have r: "CheckComputationIndexes example_io_nnet example_flags
      (example_multi_computation ?dup) \<noteq> Inr ()" by blast
  have ev: "CheckComputationIndexes example_io_nnet example_flags
      (example_multi_computation ?dup) = Inl (KaldiErr (duplicate_message (2, 0)))"
    by code_simp
  from scatter_duplicates_rejected[of ?sen "example_multi_computation ?sen"
      example_io_nnet example_flags] sc(2) pre[of 1] d1
  have a: "check_command example_io_nnet example_flags (example_multi_computation ?sen) ?sen
      = Inr ()" by blast
  from scatter_duplicates_rejected[of ?ok "example_multi_computation ?ok"
      example_io_nnet example_flags] sc(3) pre[of 2] d2
  have b: "check_command example_io_nnet example_flags (example_multi_computation ?ok) ?ok
      = Inr ()" by blast
  from scatter_duplicates_rejected[of ?gat "example_multi_computation ?gat"
      example_io_nnet example_flags] sc(4,5) pre[of 0]
  have c: "check_command example_io_nnet example_flags (example_multi_computation ?gat) ?gat
      = Inr ()" by blast
  from r ev a b c show ?thesis by blast
qed

section \<open>Query helpers: is a matrix accessed before a command\<close>

text \<open>
  C9. For a matrix index in range, \<open>MatrixIsAccessedBeforeCommand\<close> returns false on
  an empty access list; otherwise it returns true exactly when the first access is
  not the allocation command and either the first access precedes the command or,
  looking one access ahead, there is a second access and it precedes the command.
\<close>

theorem matrix_accessed_before_command:
  assumes "0 < m" and "m < int (length mas)"
  shows "MatrixIsAccessedBeforeCommand mas m c =
           Inr (let acc = mas ! nat m;
                    first_command = command_index (hd (accesses acc))
                in accesses acc \<noteq> [] \<and> first_command \<noteq> allocate_command acc \<and>
                   (first_command < c \<or>
                    (1 < length (accesses acc) \<and> command_index (accesses acc ! 1) < c)))"
  using assms by (auto simp: MatrixIsAccessedBeforeCommand_def Let_def)

theorem matrix_accessed_before_command_witness:
  "MatrixIsAccessedBeforeCommand example_accesses 1 3 = Inr True \<and>
   MatrixIsAccessedBeforeCommand example_accesses 1 2 = Inr False \<and>
   MatrixIsAccessedBeforeCommand (example_accesses[1 := empty_matrix_accesses]) 1 3 = Inr False"
proof -
  have l: "(0::int) < 1" "(1::int) < int (length example_accesses)"
    "(1::int) < int (length (example_accesses[1 := empty_matrix_accesses]))"
    by (simp_all add: example_accesses_def)
  show ?thesis
    using matrix_accessed_before_command[OF l(1) l(2), of 3]
      matrix_accessed_before_command[OF l(1) l(2), of 2]
      matrix_accessed_before_command[OF l(1) l(3), of 3]
    by (simp add: example_accesses_def empty_matrix_accesses_def)
qed

section \<open>Bounds check: a Backprop with no input derivative\<close>

lemma has_flag_zero [simp]: "has_flag 0 f = False"
  by (simp add: has_flag_def)

text \<open>
  C10. For a Backprop command with a null input-derivative view (\<open>arg6 = 0\<close>) whose
  node, precomputed-indexes and view indexes are in range, the bounds check of the
  command ends in the error "Backprop is done but has no effect." exactly when the
  property bitset of the component is zero: the condition is the logical and of the
  bitset with the (non-zero) flag, so a non-zero bitset without the updatable flag
  passes it.
\<close>

theorem backprop_no_effect_check:
  assumes "command_type c = kBackprop" and "arg6 c = 0"
    and "kUpdatableComponent fl \<noteq> 0"
    and "0 \<le> arg1 c" "arg1 c < NumNodes nnet" "IsComponentNode nnet (arg1 c)"
    and "0 \<le> arg2 c" "arg2 c \<le> int (num_precomputed_indexes computation)"
    and "0 \<le> arg3 c" "arg3 c < int (length (submatrices computation))"
    and "0 \<le> arg4 c" "arg4 c < int (length (submatrices computation))"
    and "1 \<le> arg5 c" "arg5 c < int (length (submatrices computation))"
  shows "check_command nnet fl computation c = Inl (KaldiErr ''Backprop is done but has no effect.'')
           \<longleftrightarrow> Properties (GetComponentForNode nnet (arg1 c)) = 0"
proof -
  let ?props = "Properties (GetComponentForNode nnet (arg1 c))"
  have cc: "check_command nnet fl computation c = check_backprop nnet fl computation c"
    using assms(1) by (simp add: check_command_def)
  have n: "0 < int (length (submatrices computation))"
    using assms(13,14) by linarith
  show ?thesis
  proof (cases "?props = 0")
    case True
    then show ?thesis
      unfolding cc check_backprop_def Let_def using assms n by simp
  next
    case False
    then show ?thesis
      unfolding cc check_backprop_def Let_def using assms n by simp
  qed
qed

theorem backprop_no_effect_check_witness:
  "check_command (example_nnet 0) example_flags example_computation example_backprop
     = Inl (KaldiErr ''Backprop is done but has no effect.'') \<and>
   \<not> has_flag 4 (kUpdatableComponent example_flags) \<and>
   check_command (example_nnet 4) example_flags example_computation example_backprop
     \<noteq> Inl (KaldiErr ''Backprop is done but has no effect.'') \<and>
   check_command (example_nnet 4) example_flags example_computation example_backprop = Inr ()"
proof -
  have a: "check_command (example_nnet p) example_flags example_computation example_backprop
           = Inl (KaldiErr ''Backprop is done but has no effect.'')
         \<longleftrightarrow> Properties (GetComponentForNode (example_nnet p) (arg1 example_backprop)) = 0" for p
    by (rule backprop_no_effect_check)
       (simp_all add: example_nnet_def example_flags_def example_computation_def
          example_backprop_def)
  have b: "\<not> has_flag 4 (kUpdatableComponent example_flags)"
    by (simp add: has_flag_def example_flags_def)
  have c: "check_command (example_nnet 4) example_flags example_computation example_backprop = Inr ()"
    by (simp add: check_command_def check_backprop_def example_nnet_def example_flags_def
          example_computation_def example_backprop_def has_flag_def Let_def)
  from a[of 0] a[of 4] b c show ?thesis
    by (simp add: example_nnet_def)
qed

end
